theory Spec2Isabelle
  imports Main "HOL-Library.AList"
begin

section \<open>Values, faults and the observable trace\<close>

text \<open>
  The restore pipeline of \<^verbatim>\<open>index.js\<close> is written in continuation-passing style against
  three collaborators that are not part of the program: the database driver, the file
  system and the archive decoder. Every function of the program is modelled in direct
  style: it takes the state and returns the new state together with an outcome.
  The outcome \<open>Inr v\<close> stands for the invocation of the function's callback with the
  argument \<open>v\<close>; the outcome \<open>Inl f\<close> stands for an exception thrown on the way, in which
  case the callback is not invoked at all. A JavaScript error value is represented by
  its message; \<open>None\<close> stands for \<^verbatim>\<open>null\<close> or \<^verbatim>\<open>undefined\<close>.
  The trace, the driver and the state are polymorphic in the type \<open>'d\<close> of the documents.
\<close>

type_synonym bytes = string
type_synonym err = string

datatype fault =
    TypeError string
  | DecodeFailure
  | ReaddirFailure string
  | UnhandledError err
  | Error string

datatype 'd request =
    Connect string
  | CreateCollection string
  | Collection string
  | BulkWrite string "'d list"
  | Drop string
  | DropDatabase
  | Collections
  | Command string 'd
  | Close

datatype 'd event =
    Req "'d request"
  | Log string
  | Callback "err option"

text \<open>
  The database driver is a parameter of the model. Each field answers one kind of
  request; the answer may depend on everything that has happened so far (the trace at
  the time of the request). An answer \<open>Some e\<close> is the error the driver hands to the
  callback. The driver follows the error-first convention: when it reports an error it
  hands over no result, so \<open>db.collection\<close> yields either an error or the collection
  handle, and \<open>db.collections\<close> either an error or the list of collection names.
\<close>

record 'd database =
  connect_cb :: "'d event list \<Rightarrow> string \<Rightarrow> err option"
  createCollection_cb :: "'d event list \<Rightarrow> string \<Rightarrow> err option"
  collection_cb :: "'d event list \<Rightarrow> string \<Rightarrow> err option"
  bulkWrite_cb :: "'d event list \<Rightarrow> string \<Rightarrow> 'd list \<Rightarrow> err option"
  drop_cb :: "'d event list \<Rightarrow> string \<Rightarrow> err option"
  dropDatabase_cb :: "'d event list \<Rightarrow> err option"
  collections_cb :: "'d event list \<Rightarrow> err + string list"
  command_cb :: "'d event list \<Rightarrow> string \<Rightarrow> 'd \<Rightarrow> err option"

text \<open>
  The state of one run: the trace of database requests, \<^verbatim>\<open>logger\<close> calls and
  invocations of the user's completion callback (in chronological order), the writer's
  \<^verbatim>\<open>dataToWrite\<close> object and the listener's \<^verbatim>\<open>metadata\<close> array. The object
  \<^verbatim>\<open>dataToWrite\<close> is given by its own properties, in insertion order, and by its
  prototype: \<open>None\<close> while the prototype is \<^verbatim>\<open>Object.prototype\<close>, as it is for the
  literal \<^verbatim>\<open>{}\<close>, and \<open>Some P\<close> once an assignment to the property \<^verbatim>\<open>__proto__\<close> has
  made the array \<open>P\<close> the prototype.
\<close>

record 'd state =
  events :: "'d event list"
  dataToWrite :: "(string \<times> 'd list) list"
  dataToWrite_proto :: "'d list option"
  metadata :: "(string \<times> 'd) list"

definition initial :: "'d state" where
  "initial = \<lparr>events = [], dataToWrite = [], dataToWrite_proto = None, metadata = []\<rparr>"

definition emit :: "'d event \<Rightarrow> 'd state \<Rightarrow> 'd state" where
  "emit e s = s\<lparr>events := events s @ [e]\<rparr>"

definition logger :: "string \<Rightarrow> 'd state \<Rightarrow> 'd state" where
  "logger msg s = emit (Log msg) s"

text \<open>\<^verbatim>\<open>function error(err) { if (err) { logger(err.message); } }\<close>\<close>

definition error :: "err option \<Rightarrow> 'd state \<Rightarrow> 'd state" where
  "error e s = (case e of None \<Rightarrow> s | Some m \<Rightarrow> logger m s)"

subsection \<open>Requests to the driver\<close>

definition db_connect :: "'d database \<Rightarrow> string \<Rightarrow> 'd state \<Rightarrow> err option \<times> 'd state" where
  "db_connect db uri s = (connect_cb db (events s) uri, emit (Req (Connect uri)) s)"

definition db_createCollection :: "'d database \<Rightarrow> string \<Rightarrow> 'd state \<Rightarrow> err option \<times> 'd state" where
  "db_createCollection db n s =
     (createCollection_cb db (events s) n, emit (Req (CreateCollection n)) s)"

definition db_collection :: "'d database \<Rightarrow> string \<Rightarrow> 'd state \<Rightarrow> err option \<times> 'd state" where
  "db_collection db n s = (collection_cb db (events s) n, emit (Req (Collection n)) s)"

definition collection_bulkWrite ::
  "'d database \<Rightarrow> string \<Rightarrow> 'd list \<Rightarrow> 'd state \<Rightarrow> err option \<times> 'd state" where
  "collection_bulkWrite db n ops s =
     (bulkWrite_cb db (events s) n ops, emit (Req (BulkWrite n ops)) s)"

definition collection_drop :: "'d database \<Rightarrow> string \<Rightarrow> 'd state \<Rightarrow> err option \<times> 'd state" where
  "collection_drop db n s = (drop_cb db (events s) n, emit (Req (Drop n)) s)"

definition db_dropDatabase :: "'d database \<Rightarrow> 'd state \<Rightarrow> err option \<times> 'd state" where
  "db_dropDatabase db s = (dropDatabase_cb db (events s), emit (Req DropDatabase) s)"

definition db_collections :: "'d database \<Rightarrow> 'd state \<Rightarrow> (err + string list) \<times> 'd state" where
  "db_collections db s = (collections_cb db (events s), emit (Req Collections) s)"

definition db_command :: "'d database \<Rightarrow> string \<Rightarrow> 'd \<Rightarrow> 'd state \<Rightarrow> err option \<times> 'd state" where
  "db_command db n d s = (command_cb db (events s) n d, emit (Req (Command n d)) s)"

definition db_close :: "'d state \<Rightarrow> 'd state" where
  "db_close s = emit (Req Close) s"

section \<open>The writer\<close>

subsection \<open>Documents\<close>

text \<open>
  A document is whatever a decoder returns. The writer tests the values it finds in
  \<^verbatim>\<open>dataToWrite\<close> with \<^verbatim>\<open>Array.isArray\<close>, and a decoded document can be an array (of
  documents), so the documents of the writer distinguish the arrays, given by the list
  of their elements, from all other values. Documents are values: every call of a
  decoder returns a document of its own, which no other document shares.
\<close>

datatype 'a document = JsArray "'a document list" | JsValue 'a

subsection \<open>The pending map and the order of its keys\<close>

text \<open>
  \<^verbatim>\<open>dataToWrite\<close> is a plain object used as a dictionary from collection names to arrays
  of documents. \<^verbatim>\<open>Object.keys\<close> lists its own properties: the keys that are array
  indices (canonical decimal numerals below \<open>2^32 - 1\<close>) first, in ascending numeric
  order, and then the other keys in insertion order.
\<close>

definition is_digit :: "char \<Rightarrow> bool" where
  "is_digit c = (48 \<le> (of_char c :: nat) \<and> (of_char c :: nat) \<le> 57)"

definition decimal :: "string \<Rightarrow> nat" where
  "decimal s = foldl (\<lambda>n c. 10 * n + ((of_char c :: nat) - 48)) 0 s"

definition is_array_index :: "string \<Rightarrow> bool" where
  "is_array_index k =
     (k \<noteq> [] \<and> list_all is_digit k \<and> (k = ''0'' \<or> hd k \<noteq> CHR ''0'') \<and> decimal k < 4294967295)"

definition object_keys :: "(string \<times> 'v) list \<Rightarrow> string list" where
  "object_keys kvs =
     sort_key decimal (filter is_array_index (map fst kvs))
       @ filter (\<lambda>k. \<not> is_array_index k) (map fst kvs)"

subsection \<open>Reading and writing the properties of the pending map\<close>

text \<open>
  \<open>lookup_array s name\<close> is the value of \<^verbatim>\<open>dataToWrite[name]\<close> when that value is an
  array, and \<open>None\<close> when it is anything else. The lookup goes through the prototype
  chain:
  \<^item> an own property is found first; its value is the buffer stored under the name;
  \<^item> \<^verbatim>\<open>__proto__\<close> is never an own property: it is the accessor inherited from
    \<^verbatim>\<open>Object.prototype\<close>, which returns the prototype of \<^verbatim>\<open>dataToWrite\<close>; this is an
    array only once an assignment has replaced the prototype;
  \<^item> once the prototype is the array \<open>P\<close>, a name that is an index of \<open>P\<close> is found
    there, and its value is the document \<open>P[name]\<close>, which may be an array; the other
    names found along the chain (\<^verbatim>\<open>length\<close> and the methods of \<^verbatim>\<open>Array.prototype\<close> and
    \<^verbatim>\<open>Object.prototype\<close>) hold numbers and functions;
  \<^item> every other name is \<^verbatim>\<open>undefined\<close>.
\<close>

definition lookup_array :: "'a document state \<Rightarrow> string \<Rightarrow> 'a document list option" where
  "lookup_array s name =
     (case map_of (dataToWrite s) name of
        Some buffer \<Rightarrow> Some buffer
      | None \<Rightarrow>
          (case dataToWrite_proto s of
             None \<Rightarrow> None
           | Some P \<Rightarrow>
               if name = ''__proto__'' then Some P
               else if is_array_index name \<and> decimal name < length P then
                 (case P ! decimal name of
                    JsArray elements \<Rightarrow> Some elements
                  | JsValue _ \<Rightarrow> None)
               else None))"

text \<open>
  \<^verbatim>\<open>dataToWrite[name].push(document)\<close>, for a name whose value is an array: the array is
  extended in place, where it lives: under the own property, in the prototype itself,
  or inside the prototype when the array is one of its elements. (\<^verbatim>\<open>addDocument\<close> calls
  it for such names only; for any other name the state is returned as it is.)
\<close>

definition push :: "string \<Rightarrow> 'a document \<Rightarrow> 'a document state \<Rightarrow> 'a document state" where
  "push name document s =
     (case map_of (dataToWrite s) name of
        Some buffer \<Rightarrow>
          s\<lparr>dataToWrite := AList.update name (buffer @ [document]) (dataToWrite s)\<rparr>
      | None \<Rightarrow>
          (case dataToWrite_proto s of
             None \<Rightarrow> s
           | Some P \<Rightarrow>
               if name = ''__proto__'' then s\<lparr>dataToWrite_proto := Some (P @ [document])\<rparr>
               else if is_array_index name \<and> decimal name < length P then
                 (case P ! decimal name of
                    JsArray elements \<Rightarrow>
                      s\<lparr>dataToWrite_proto :=
                          Some (P[decimal name := JsArray (elements @ [document])])\<rparr>
                  | JsValue _ \<Rightarrow> s)
               else s))"

text \<open>
  \<^verbatim>\<open>dataToWrite[name] = value\<close>, for a name that is not an own property. The name
  \<^verbatim>\<open>__proto__\<close> reaches the inherited setter, which makes the value the prototype of
  \<^verbatim>\<open>dataToWrite\<close> and creates no property. Every other name becomes an own property (the
  properties a name can inherit here are writable data properties, which an assignment
  shadows with an own property).
\<close>

definition assign :: "string \<Rightarrow> 'd list \<Rightarrow> 'd state \<Rightarrow> 'd state" where
  "assign name buffer s =
     (if name = ''__proto__'' then s\<lparr>dataToWrite_proto := Some buffer\<rparr>
      else s\<lparr>dataToWrite := AList.update name buffer (dataToWrite s)\<rparr>)"

subsection \<open>Flushing one collection\<close>

text \<open>
  \<^verbatim>\<open>writeAllInCollection\<close>: maps the pending documents to \<^verbatim>\<open>insertOne\<close> operations (the
  request \<open>BulkWrite\<close> carries the documents in the same order). Calling \<^verbatim>\<open>.map\<close> on a
  value that is not an array throws; the writer never does so, since \<^verbatim>\<open>addDocument\<close>
  flushes a name under which it has just stored an array and \<^verbatim>\<open>drain\<close> flushes keys.
  An empty buffer is acknowledged without a request and without deleting the key.
  Otherwise the collection handle is requested, an error of that request is logged, and
  \<^verbatim>\<open>collection.bulkWrite\<close> is called on the handle, which throws when the handle is
  missing. When the insert has answered,
  \<^verbatim>\<open>delete dataToWrite[collectionName]\<close> removes the own property of that name, if there
  is one (it does nothing to what the name inherits), and the answer of the insert is
  handed to the callback.
\<close>

definition writeAllInCollection ::
  "'a document database \<Rightarrow> string \<Rightarrow> 'a document state
     \<Rightarrow> (fault + err option) \<times> 'a document state" where
  "writeAllInCollection db collectionName s =
     (case lookup_array s collectionName of
        None \<Rightarrow> (Inl (TypeError ''dataToWrite[collectionName].map is not a function''), s)
      | Some operations \<Rightarrow>
          if length operations = 0 then (Inr None, s)
          else
            (case db_collection db collectionName s of
               (err, s1) \<Rightarrow>
                 (let s2 = error err s1 in
                  case err of
                    Some _ \<Rightarrow> (Inl (TypeError ''Cannot read property bulkWrite of undefined''), s2)
                  | None \<Rightarrow>
                      (case collection_bulkWrite db collectionName operations s2 of
                         (err', s3) \<Rightarrow>
                           (Inr err',
                            s3\<lparr>dataToWrite := AList.delete collectionName (dataToWrite s3)\<rparr>)))))"

subsection \<open>The writer's operations\<close>

definition createCollection ::
  "'d database \<Rightarrow> string \<Rightarrow> 'd state \<Rightarrow> (fault + err option) \<times> 'd state" where
  "createCollection db collectionName s =
     (case db_createCollection db collectionName s of (err, s1) \<Rightarrow> (Inr err, s1))"

text \<open>
  \<^verbatim>\<open>addDocument\<close>: pushes the document onto the array found under the name, or assigns
  a new one-element array when the value found is not an array; then it looks the name
  up again and compares the length of the array with the threshold. The second lookup
  always finds the array just extended or assigned (\<open>lookup_after_add\<close> below), so the
  branch for a value that is not an array is never taken.
\<close>

definition addDocument ::
  "'a document database \<Rightarrow> string \<Rightarrow> 'a document \<Rightarrow> 'a document state
     \<Rightarrow> (fault + err option) \<times> 'a document state" where
  "addDocument db collectionName document s =
     (let s1 = (case lookup_array s collectionName of
                  Some _ \<Rightarrow> push collectionName document s
                | None \<Rightarrow> assign collectionName [document] s)
      in case lookup_array s1 collectionName of
           None \<Rightarrow> (Inl (TypeError ''Cannot read property length of undefined''), s1)
         | Some buffer \<Rightarrow>
             if length buffer > 50 then writeAllInCollection db collectionName s1
             else (Inr None, s1))"

text \<open>
  \<^verbatim>\<open>drain\<close> calls itself from the callback of the flush, so it returns only if the
  recursion ends: not returning is the value \<open>None\<close>.
\<close>

partial_function (option) drain ::
  "'a document database \<Rightarrow> 'a document state
     \<Rightarrow> ((fault + err option) \<times> 'a document state) option" where
  "drain db s =
     (if length (object_keys (dataToWrite s)) = 0 then Some (Inr None, s)
      else
        (let collectionName = hd (object_keys (dataToWrite s)) in
         case writeAllInCollection db collectionName s of
           (Inl f, s1) \<Rightarrow> Some (Inl f, s1)
         | (Inr err, s1) \<Rightarrow> drain db (error err s1)))"

text \<open>
  \<^verbatim>\<open>addIndices\<close> pops the last record of the array it is given, issues the
  \<^verbatim>\<open>createIndexes\<close> command for it, logs an error of the command and goes on with the
  shortened array.
\<close>

function addIndices ::
  "'d database \<Rightarrow> (string \<times> 'd) list \<Rightarrow> 'd state \<Rightarrow> (fault + err option) \<times> 'd state" where
  "addIndices db indices s =
     (if length indices = 0 then (Inr None, s)
      else
        (let collectionAndIndexes = last indices;
             indices' = butlast indices
         in case db_command db (fst collectionAndIndexes) (snd collectionAndIndexes) s of
              (err, s1) \<Rightarrow> addIndices db indices' (error err s1)))"
  by pat_completeness auto
termination
  by (relation "measure (\<lambda>(db, indices, s). length indices)") auto

declare addIndices.simps [simp del]

section \<open>The stream listener\<close>

subsection \<open>Decoders\<close>

text \<open>
  A parser is an object whose \<^verbatim>\<open>parse\<close> property is called on the bytes of a file. It is
  modelled by that property: \<open>None\<close> when the object has no such property (the call
  throws), otherwise a function that returns \<open>None\<close> where the decoder throws.
  \<^verbatim>\<open>JSON.parse\<close> and \<^verbatim>\<open>BSON.deserialize\<close> are parameters of the model, as are the
  operations of the file system and the archive decoder.
\<close>

type_synonym 'd parser = "(bytes \<Rightarrow> 'd option) option"

record tar_entry =
  header_type :: string
  header_name :: string
  entry_stream :: bytes

record 'd env =
  env_db :: "'d database"
  JSON_parse :: "bytes \<Rightarrow> 'd option"
  BSON_deserialize :: "bytes \<Rightarrow> 'd option"
  readdirSync :: "string \<Rightarrow> string list option"
  path_join :: "string \<Rightarrow> string \<Rightarrow> string"
  createReadStream :: "string \<Rightarrow> bytes"
  tar_extract :: "bytes \<Rightarrow> tar_entry list"

definition jsonParser :: "'d env \<Rightarrow> 'd parser" where
  "jsonParser env = Some (JSON_parse env)"

definition bsonParser :: "'d env \<Rightarrow> 'd parser" where
  "bsonParser env = Some (BSON_deserialize env)"

definition parse :: "'d parser \<Rightarrow> bytes \<Rightarrow> fault + 'd" where
  "parse p b =
     (case p of
        None \<Rightarrow> Inl (TypeError ''parser.parse is not a function'')
      | Some f \<Rightarrow> (case f b of None \<Rightarrow> Inl DecodeFailure | Some d \<Rightarrow> Inr d))"

subsection \<open>Names out of paths\<close>

text \<open>
  \<^verbatim>\<open>name.replace(/\\/g, '/')\<close> turns every backslash into a slash. The three regular
  expressions are matched without flags, and each ends in \<^verbatim>\<open>$\<close>, so the captured
  segment is fixed by the end of the string:
  \<^item> \<^verbatim>\<open>.*/([^/]+)/?$\<close> captures the last segment, a final slash apart; there must be a
    slash before the segment and the segment must not be empty;
  \<^item> \<^verbatim>\<open>.*/([^/]+)/[^/]+$\<close> captures the segment before the last slash; the segment, the
    part after the last slash and a slash before the segment are required;
  \<^item> \<^verbatim>\<open>.*/[^/]+/([^/]+)$\<close> matches the same strings and captures the part after the last
    slash.
  \<open>None\<close> is the \<^verbatim>\<open>null\<close> that \<^verbatim>\<open>exec\<close> returns when there is no match.
\<close>

definition replace_backslashes :: "string \<Rightarrow> string" where
  "replace_backslashes s = map (\<lambda>c. if c = CHR 0x5C then CHR ''/'' else c) s"

definition after_last_slash :: "string \<Rightarrow> string" where
  "after_last_slash s = rev (takeWhile (\<lambda>c. c \<noteq> CHR ''/'') (rev s))"

definition before_last_slash :: "string \<Rightarrow> string option" where
  "before_last_slash s =
     (if CHR ''/'' \<in> set s then Some (rev (tl (dropWhile (\<lambda>c. c \<noteq> CHR ''/'') (rev s))))
      else None)"

definition collectionNameForDirectory :: "string \<Rightarrow> string option" where
  "collectionNameForDirectory s =
     (let t = (if s \<noteq> [] \<and> last s = CHR ''/'' then butlast s else s) in
      if CHR ''/'' \<in> set t \<and> after_last_slash t \<noteq> [] then Some (after_last_slash t)
      else None)"

definition collectionNameForFiles :: "string \<Rightarrow> string option" where
  "collectionNameForFiles s =
     (case before_last_slash s of
        None \<Rightarrow> None
      | Some p \<Rightarrow>
          if after_last_slash s = [] then None
          else if CHR ''/'' \<in> set p \<and> after_last_slash p \<noteq> [] then Some (after_last_slash p)
          else None)"

definition metadataFilenameRegexp :: "string \<Rightarrow> string option" where
  "metadataFilenameRegexp s =
     (case before_last_slash s of
        None \<Rightarrow> None
      | Some p \<Rightarrow>
          if after_last_slash s = [] then None
          else if CHR ''/'' \<in> set p \<and> after_last_slash p \<noteq> [] then Some (after_last_slash s)
          else None)"

subsection \<open>The three handlers\<close>

definition onDirectory ::
  "'d env \<Rightarrow> string \<Rightarrow> 'd state \<Rightarrow> (fault + err option) \<times> 'd state" where
  "onDirectory env directoryName s =
     (case collectionNameForDirectory (replace_backslashes directoryName) of
        None \<Rightarrow> (Inl (TypeError ''Cannot read property 1 of null''), s)
      | Some collectionName \<Rightarrow>
          if collectionName = ''.metadata'' then (Inr None, s)
          else createCollection (env_db env) collectionName s)"

text \<open>
  \<^verbatim>\<open>onFile\<close>: the argument \<open>stream\<close> is the whole content the stream delivers, which the
  handler concatenates at the \<^verbatim>\<open>end\<close> event. Under \<^verbatim>\<open>.metadata\<close> with metadata support
  switched off the handler calls back before it registers any listener on the stream.
\<close>

definition onFile ::
  "'a document env \<Rightarrow> 'a document parser \<Rightarrow> bool \<Rightarrow> string \<Rightarrow> bytes \<Rightarrow> 'a document state
     \<Rightarrow> (fault + err option) \<times> 'a document state" where
  "onFile env parser supportMetadata name stream s =
     (case collectionNameForFiles (replace_backslashes name) of
        None \<Rightarrow> (Inl (TypeError ''Cannot read property 1 of null''), s)
      | Some collectionName \<Rightarrow>
          if collectionName = ''.metadata'' then
            (case metadataFilenameRegexp (replace_backslashes name) of
               None \<Rightarrow> (Inl (TypeError ''Cannot read property 1 of null''), s)
             | Some metadataName \<Rightarrow>
                 if \<not> supportMetadata then (Inr None, s)
                 else
                   (case parse (jsonParser env) stream of
                      Inl f \<Rightarrow> (Inl f, s)
                    | Inr document \<Rightarrow>
                        (Inr None, s\<lparr>metadata := metadata s @ [(metadataName, document)]\<rparr>)))
          else
            (case parse parser stream of
               Inl f \<Rightarrow> (Inl f, s)
             | Inr document \<Rightarrow> addDocument (env_db env) collectionName document s))"

text \<open>
  \<^verbatim>\<open>finish\<close>: \<^verbatim>\<open>addIndices\<close> is handed the \<^verbatim>\<open>metadata\<close> array itself and pops every record
  off it, so the array is empty when its callback runs.
\<close>

definition finish ::
  "'a document env \<Rightarrow> bool \<Rightarrow> 'a document state
     \<Rightarrow> ((fault + err option) \<times> 'a document state) option" where
  "finish env supportMetadata s =
     (case drain (env_db env) s of
        None \<Rightarrow> None
      | Some (Inl f, s1) \<Rightarrow> Some (Inl f, s1)
      | Some (Inr err, s1) \<Rightarrow>
          (let s2 = error err s1 in
           if \<not> supportMetadata then Some (Inr None, s2)
           else
             (case addIndices (env_db env) (metadata s2) s2 of
                (Inl f, s3) \<Rightarrow> Some (Inl f, s3)
              | (Inr err', s3) \<Rightarrow> Some (Inr None, (error err' s3)\<lparr>metadata := []\<rparr>))))"

section \<open>Dropping collections\<close>

text \<open>
  \<^verbatim>\<open>someCollections\<close> walks the names with \<^verbatim>\<open>forEach\<close>: for each name it asks for the
  collection handle, logs the handle's name (which throws when the driver reported an
  error and handed over no handle, before the test of \<^verbatim>\<open>err\<close> is reached) and issues the
  drop. The drops answer after the walk; their errors are logged, here in the order of
  the requests, and \<^verbatim>\<open>next(null)\<close> is called with the last answer.
\<close>

fun select_and_drop ::
  "'d database \<Rightarrow> string list \<Rightarrow> 'd state \<Rightarrow> (fault + err option list) \<times> 'd state" where
  "select_and_drop db [] s = (Inr [], s)"
| "select_and_drop db (c # cs) s =
     (case db_collection db c s of
        (Some e, s1) \<Rightarrow> (Inl (TypeError ''Cannot read property collectionName of undefined''), s1)
      | (None, s1) \<Rightarrow>
          (case collection_drop db c (logger (''select collection '' @ c) s1) of
             (err, s2) \<Rightarrow>
               (case select_and_drop db cs s2 of
                  (Inl f, s3) \<Rightarrow> (Inl f, s3)
                | (Inr errs, s3) \<Rightarrow> (Inr (err # errs), s3))))"

definition someCollections ::
  "'d database \<Rightarrow> string list \<Rightarrow> 'd state \<Rightarrow> (fault + err option) \<times> 'd state" where
  "someCollections db collections s =
     (if length collections = 0 then (Inr None, s)
      else
        (case select_and_drop db collections s of
           (Inl f, s1) \<Rightarrow> (Inl f, s1)
         | (Inr errs, s1) \<Rightarrow> (Inr None, foldl (\<lambda>s' e. error e s') s1 errs)))"

section \<open>Data sources\<close>

subsection \<open>Archive source\<close>

text \<open>
  The archive decoder hands the entries to the \<^verbatim>\<open>entry\<close> handler one at a time and
  goes on when the handler's \<^verbatim>\<open>next\<close> is called. Called with an error, \<^verbatim>\<open>next\<close> makes
  the decoder destroy itself and emit \<^verbatim>\<open>error\<close>, for which no handler is registered:
  the run ends there and \<^verbatim>\<open>finish\<close> is never emitted.
\<close>

definition onEntry ::
  "'a document env \<Rightarrow> 'a document parser \<Rightarrow> bool \<Rightarrow> tar_entry \<Rightarrow> 'a document state
     \<Rightarrow> (fault + err option) \<times> 'a document state" where
  "onEntry env parser supportMetadata e s =
     (if header_type e = ''directory'' then onDirectory env (header_name e) s
      else if header_type e = ''file'' then
        onFile env parser supportMetadata (header_name e) (entry_stream e) s
      else (Inr None, s))"

fun extract_entries ::
  "'a document env \<Rightarrow> 'a document parser \<Rightarrow> bool \<Rightarrow> tar_entry list \<Rightarrow> 'a document state
     \<Rightarrow> (fault + unit) \<times> 'a document state" where
  "extract_entries env parser supportMetadata [] s = (Inr (), s)"
| "extract_entries env parser supportMetadata (e # es) s =
     (case onEntry env parser supportMetadata e s of
        (Inl f, s1) \<Rightarrow> (Inl f, s1)
      | (Inr (Some err), s1) \<Rightarrow> (Inl (UnhandledError err), s1)
      | (Inr None, s1) \<Rightarrow> extract_entries env parser supportMetadata es s1)"

definition streamingTar_begin ::
  "'a document env \<Rightarrow> 'a document parser \<Rightarrow> bool \<Rightarrow> tar_entry list \<Rightarrow> 'a document state
     \<Rightarrow> ((fault + err option) \<times> 'a document state) option" where
  "streamingTar_begin env parser supportMetadata tarStream s =
     (case extract_entries env parser supportMetadata tarStream s of
        (Inl f, s1) \<Rightarrow> Some (Inl f, s1)
      | (Inr _, s1) \<Rightarrow> finish env supportMetadata s1)"

subsection \<open>File system source\<close>

function addCollections ::
  "'d env \<Rightarrow> string list \<Rightarrow> 'd state \<Rightarrow> (fault + err option) \<times> 'd state" where
  "addCollections env collections s =
     (if length collections = 0 then (Inr None, s)
      else
        (let collectionName = last collections;
             collections' = butlast collections
         in case onDirectory env collectionName s of
              (Inl f, s1) \<Rightarrow> (Inl f, s1)
            | (Inr err, s1) \<Rightarrow> addCollections env collections' (error err s1)))"
  by pat_completeness auto
termination
  by (relation "measure (\<lambda>(env, collections, s). length collections)") auto

declare addCollections.simps [simp del]

function addFiles ::
  "'a document env \<Rightarrow> 'a document parser \<Rightarrow> bool \<Rightarrow> string list \<Rightarrow> 'a document state
     \<Rightarrow> (fault + err option) \<times> 'a document state" where
  "addFiles env parser supportMetadata files s =
     (if length files = 0 then (Inr None, s)
      else
        (let filename = last files;
             files' = butlast files
         in case onFile env parser supportMetadata filename (createReadStream env filename) s of
              (Inl f, s1) \<Rightarrow> (Inl f, s1)
            | (Inr err, s1) \<Rightarrow> addFiles env parser supportMetadata files' (error err s1)))"
  by pat_completeness auto
termination
  by (relation "measure (\<lambda>(env, parser, supportMetadata, files, s). length files)") auto

declare addFiles.simps [simp del]

text \<open>
  \<^verbatim>\<open>JSON.toString\<close> is \<^verbatim>\<open>Object.prototype.toString\<close> applied to the \<^verbatim>\<open>JSON\<close> object,
  whatever its argument.
\<close>

definition JSON_toString :: string where
  "JSON_toString = ''[object JSON]''"

definition directoryArrays :: "'d env \<Rightarrow> string \<Rightarrow> string list \<Rightarrow> string list list option" where
  "directoryArrays env dbRootDir names =
     those (map (\<lambda>dirname.
        map_option (map (\<lambda>filename. path_join env (path_join env dbRootDir dirname) filename))
          (readdirSync env (path_join env dbRootDir dirname))) names)"

definition fileSystem_begin ::
  "'a document env \<Rightarrow> 'a document parser \<Rightarrow> bool \<Rightarrow> string \<Rightarrow> 'a document state
     \<Rightarrow> ((fault + err option) \<times> 'a document state) option" where
  "fileSystem_begin env parser supportMetadata rootDir s =
     (case readdirSync env rootDir of
        None \<Rightarrow> Some (Inl (ReaddirFailure rootDir), s)
      | Some dirs \<Rightarrow>
          if length dirs \<noteq> 1 then
            Some (Inr (Some (''Found multiple directories and only support one: ''
                               @ JSON_toString)), s)
          else
            (let dbRootDir = path_join env rootDir (hd dirs) in
             case readdirSync env dbRootDir of
               None \<Rightarrow> Some (Inl (ReaddirFailure dbRootDir), s)
             | Some names \<Rightarrow>
                 (case addCollections env (map (path_join env dbRootDir) names) s of
                    (Inl f, s1) \<Rightarrow> Some (Inl f, s1)
                  | (Inr err, s1) \<Rightarrow>
                      (let s2 = error err s1 in
                       case directoryArrays env dbRootDir names of
                         None \<Rightarrow> Some (Inl (ReaddirFailure dbRootDir), s2)
                       | Some arrays \<Rightarrow>
                           (case addFiles env parser supportMetadata (concat arrays) s2 of
                              (Inl f, s3) \<Rightarrow> Some (Inl f, s3)
                            | (Inr err', s3) \<Rightarrow>
                                finish env supportMetadata (error err' s3))))))"

datatype datasource =
    fileSystemDataSource string
  | streamingTarDataSource "tar_entry list"

definition tarDataSource :: "'d env \<Rightarrow> string \<Rightarrow> datasource" where
  "tarDataSource env tarFile =
     streamingTarDataSource (tar_extract env (createReadStream env tarFile))"

definition datasource_begin ::
  "'a document env \<Rightarrow> 'a document parser \<Rightarrow> bool \<Rightarrow> datasource \<Rightarrow> 'a document state
     \<Rightarrow> ((fault + err option) \<times> 'a document state) option" where
  "datasource_begin env parser supportMetadata datasource s =
     (case datasource of
        fileSystemDataSource rootDir \<Rightarrow> fileSystem_begin env parser supportMetadata rootDir s
      | streamingTarDataSource tarStream \<Rightarrow>
          streamingTar_begin env parser supportMetadata tarStream s)"

section \<open>The session\<close>

text \<open>
  The parsed options \<^verbatim>\<open>my\<close>, as far as \<^verbatim>\<open>wrapper\<close> reads them. \<open>my_callback\<close> tells
  whether a completion callback was given; its invocation is the event \<open>Callback\<close>.
  \<open>my_stream\<close> is the live archive stream, given by the entries the archive decoder
  reads from it. \<open>my_dropCollections\<close> is \<^verbatim>\<open>null\<close>, an array of names, or another truthy
  value; \<open>my_tar\<close> is \<^verbatim>\<open>null\<close>, a string, or \<^verbatim>\<open>true\<close>. A \<open>Log\<close> event records a call of
  \<^verbatim>\<open>logger\<close>, which does nothing when no log file is configured.
\<close>

datatype dropCollections_option =
    DropCollections_null
  | DropCollections_array "string list"
  | DropCollections_other

datatype tar_option = Tar_null | Tar_string string | Tar_true

datatype 'd parser_option = Parser_function "'d parser" | Parser_string string

record 'd my =
  my_uri :: string
  my_root :: string
  my_stream :: "tar_entry list option"
  my_parser :: "'d parser_option"
  my_callback :: bool
  my_tar :: tar_option
  my_logger :: "string option"
  my_metadata :: bool
  my_drop :: bool
  my_dropCollections :: dropCollections_option

text \<open>
  \<^verbatim>\<open>systemRegex\<close> tests that the name starts with \<^verbatim>\<open>system.\<close> (with the dot).
  \<^verbatim>\<open>toLowerCase\<close> is modelled on the ASCII letters, which is all that the comparison
  with the tags \<^verbatim>\<open>bson\<close> and \<^verbatim>\<open>json\<close> needs.
\<close>

definition systemRegex_test :: "string \<Rightarrow> bool" where
  "systemRegex_test collectionName = (take 7 collectionName = ''system.'')"

definition toLowerCase :: "string \<Rightarrow> string" where
  "toLowerCase str =
     map (\<lambda>c. if 65 \<le> (of_char c :: nat) \<and> (of_char c :: nat) \<le> 90
               then char_of ((of_char c :: nat) + 32) else c) str"

text \<open>
  The latest callback of \<^verbatim>\<open>wrapper\<close>, \<^verbatim>\<open>importDataToDb\<close> and \<^verbatim>\<open>go\<close>. The outcome of
  \<^verbatim>\<open>go\<close> is \<open>Inr e\<close> when the latest callback has been called with \<open>e\<close>, and \<open>Inl f\<close>
  when an exception ended the run before.
\<close>

definition callback :: "'d my \<Rightarrow> err option \<Rightarrow> 'd state \<Rightarrow> 'd state" where
  "callback my err s =
     (let s1 = logger ''restore stop'' s in
      if my_callback my then emit (Callback err) (logger ''callback run'' s1)
      else (case err of Some e \<Rightarrow> logger e s1 | None \<Rightarrow> s1))"

definition importDataToDb ::
  "'a document env \<Rightarrow> 'a document my \<Rightarrow> 'a document parser \<Rightarrow> datasource \<Rightarrow> err option
     \<Rightarrow> 'a document state \<Rightarrow> ((fault + err option) \<times> 'a document state) option" where
  "importDataToDb env my parser datasource err s =
     (case err of
        Some e \<Rightarrow> Some (Inr (Some e), callback my (Some e) (db_close (logger ''db close'' s)))
      | None \<Rightarrow>
          (case datasource_begin env parser (my_metadata my) datasource s of
             None \<Rightarrow> None
           | Some (Inl f, s1) \<Rightarrow> Some (Inl f, s1)
           | Some (Inr err', s1) \<Rightarrow>
               Some (Inr err', callback my err' (db_close (logger ''db close'' s1)))))"

definition go ::
  "'a document env \<Rightarrow> 'a document my \<Rightarrow> 'a document parser \<Rightarrow> datasource \<Rightarrow> 'a document state
     \<Rightarrow> ((fault + err option) \<times> 'a document state) option" where
  "go env my parser datasource s =
     (case db_connect (env_db env) (my_uri my) s of
        (err, s1) \<Rightarrow>
          (let s2 = logger ''db open'' s1 in
           case err of
             Some e \<Rightarrow> Some (Inr (Some e), callback my (Some e) s2)
           | None \<Rightarrow>
               if my_drop my then
                 (case db_dropDatabase (env_db env) (logger ''drop database'' s2) of
                    (err', s3) \<Rightarrow> importDataToDb env my parser datasource err' s3)
               else
                 (case my_dropCollections my of
                    DropCollections_null \<Rightarrow> importDataToDb env my parser datasource None s2
                  | DropCollections_array names \<Rightarrow>
                      (case someCollections (env_db env) names (logger ''drop collections'' s2) of
                         (Inl f, s3) \<Rightarrow> Some (Inl f, s3)
                       | (Inr err', s3) \<Rightarrow> importDataToDb env my parser datasource err' s3)
                  | DropCollections_other \<Rightarrow>
                      (case db_collections (env_db env) (logger ''drop collections'' s2) of
                         (Inl e, s3) \<Rightarrow>
                           Some (Inl (TypeError ''Cannot read property length of null''),
                                 error (Some e) s3)
                       | (Inr collections, s3) \<Rightarrow>
                           (case someCollections (env_db env)
                                   (filter (\<lambda>collectionName. \<not> systemRegex_test collectionName)
                                      collections) s3 of
                              (Inl f, s4) \<Rightarrow> Some (Inl f, s4)
                            | (Inr err', s4) \<Rightarrow>
                                importDataToDb env my parser datasource err' s4)))))"

definition wrapper_parser :: "'d env \<Rightarrow> 'd my \<Rightarrow> fault + 'd parser" where
  "wrapper_parser env my =
     (case my_parser my of
        Parser_function f \<Rightarrow> Inr f
      | Parser_string str \<Rightarrow>
          if toLowerCase str = ''bson'' then Inr (bsonParser env)
          else if toLowerCase str = ''json'' then Inr (jsonParser env)
          else Inl (Error ''missing parser option''))"

definition wrapper ::
  "'a document env \<Rightarrow> 'a document my \<Rightarrow> 'a document state
     \<Rightarrow> ((fault + err option) \<times> 'a document state) option" where
  "wrapper env my s =
     (case wrapper_parser env my of
        Inl f \<Rightarrow> Some (Inl f, s)
      | Inr parser \<Rightarrow>
          (let s1 = (case my_logger my of None \<Rightarrow> s | Some _ \<Rightarrow> logger ''restore start'' s) in
           if my_tar my = Tar_null \<or> my_tar my = Tar_string [] then
             go env my parser (fileSystemDataSource (my_root my)) s1
           else
             (case my_stream my of
                Some tarStream \<Rightarrow> go env my parser (streamingTarDataSource tarStream) s1
              | None \<Rightarrow>
                  go env my parser
                    (tarDataSource env
                       (my_root my @ (case my_tar my of Tar_string t \<Rightarrow> t | _ \<Rightarrow> ''true''))) s1)))"

section \<open>Notions used to state the properties\<close>

text \<open>
  \<open>pending s n\<close> is the buffer that the writer finds under the name \<open>n\<close> (empty when it
  finds no array there), \<open>keys s\<close> the set of keys (own properties) of the pending map.
  \<open>pending_ok\<close> says that the pending map has each key once and no key with an empty
  buffer.
\<close>

definition pending :: "'a document state \<Rightarrow> string \<Rightarrow> 'a document list" where
  "pending s n = (case lookup_array s n of None \<Rightarrow> [] | Some docs \<Rightarrow> docs)"

definition keys :: "'d state \<Rightarrow> string set" where
  "keys s = fst ` set (dataToWrite s)"

definition pending_ok :: "'d state \<Rightarrow> bool" where
  "pending_ok s =
     (distinct (map fst (dataToWrite s)) \<and> (\<forall>(k, docs) \<in> set (dataToWrite s). docs \<noteq> []))"

text \<open>
  \<open>requests\<close> reads the database requests off a trace. \<open>issues_only Q s s'\<close> says that
  the trace of \<open>s'\<close> extends the trace of \<open>s\<close> and that every request issued in between
  satisfies \<open>Q\<close>.
\<close>

fun requests :: "'d event list \<Rightarrow> 'd request list" where
  "requests [] = []"
| "requests (Req r # evs) = r # requests evs"
| "requests (Log m # evs) = requests evs"
| "requests (Callback e # evs) = requests evs"

definition issues_only :: "('d request \<Rightarrow> bool) \<Rightarrow> 'd state \<Rightarrow> 'd state \<Rightarrow> bool" where
  "issues_only Q s s' = (\<exists>new. events s' = events s @ new \<and> list_all Q (requests new))"

fun writer_request :: "string set \<Rightarrow> 'd request \<Rightarrow> bool" where
  "writer_request K (CreateCollection n) = (n \<in> K)"
| "writer_request K (Collection n) = (n \<in> K)"
| "writer_request K (BulkWrite n docs) = (n \<in> K)"
| "writer_request K r = False"

fun index_request :: "'d request \<Rightarrow> bool" where
  "index_request (Command n d) = True"
| "index_request r = False"

text \<open>
  \<open>errors_logged db pre new\<close> reads the events \<open>new\<close> that follow the trace \<open>pre\<close> and
  checks that every batched insert and every \<^verbatim>\<open>createIndexes\<close> command that the database
  \<open>db\<close> answers with an error is directly followed by the log line of that error.
\<close>

fun errors_logged :: "'d database \<Rightarrow> 'd event list \<Rightarrow> 'd event list \<Rightarrow> bool" where
  "errors_logged db pre [] = True"
| "errors_logged db pre (Req (BulkWrite n docs) # rest) =
     ((case bulkWrite_cb db pre n docs of
         None \<Rightarrow> True
       | Some e \<Rightarrow> (case rest of Log m # _ \<Rightarrow> m = e | _ \<Rightarrow> False))
      \<and> errors_logged db (pre @ [Req (BulkWrite n docs)]) rest)"
| "errors_logged db pre (Req (Command n d) # rest) =
     ((case command_cb db pre n d of
         None \<Rightarrow> True
       | Some e \<Rightarrow> (case rest of Log m # _ \<Rightarrow> m = e | _ \<Rightarrow> False))
      \<and> errors_logged db (pre @ [Req (Command n d)]) rest)"
| "errors_logged db pre (ev # rest) = errors_logged db (pre @ [ev]) rest"

text \<open>The requests of the session itself: connecting, dropping, closing.\<close>

fun session_request :: "'d request \<Rightarrow> bool" where
  "session_request (Connect uri) = True"
| "session_request (Collection n) = True"
| "session_request (Drop n) = True"
| "session_request DropDatabase = True"
| "session_request Collections = True"
| "session_request Close = True"
| "session_request r = False"

text \<open>
  \<open>steps_within K s s'\<close>: from \<open>s\<close> to \<open>s'\<close> only requests of the writer for collections
  in \<open>K\<close> were issued, the keys of the pending map are in \<open>K\<close> afterwards, and
  \<open>pending_ok\<close> is kept.
\<close>

definition steps_within :: "string set \<Rightarrow> 'd state \<Rightarrow> 'd state \<Rightarrow> bool" where
  "steps_within K s s' =
     (issues_only (writer_request K) s s' \<and> keys s' \<subseteq> K \<and> (pending_ok s \<longrightarrow> pending_ok s'))"

text \<open>A database that answers every request without an error, for concrete runs.\<close>

definition db_ok :: "'d database" where
  "db_ok = \<lparr>connect_cb = (\<lambda>_ _. None), createCollection_cb = (\<lambda>_ _. None),
     collection_cb = (\<lambda>_ _. None), bulkWrite_cb = (\<lambda>_ _ _. None), drop_cb = (\<lambda>_ _. None),
     dropDatabase_cb = (\<lambda>_. None), collections_cb = (\<lambda>_. Inr []), command_cb = (\<lambda>_ _ _. None)\<rparr>"

text \<open>
  A small concrete world for runs: a database that answers one kind of request with an
  error, a dump directory \<^verbatim>\<open>/dump/mydb\<close> with the collection \<^verbatim>\<open>users\<close> (one document) and
  its index file under \<^verbatim>\<open>.metadata\<close>, a dump root with two entries, a dump directory
  \<^verbatim>\<open>/proto/mydb\<close> with the collection \<^verbatim>\<open>__proto__\<close> (one document) and its index file,
  decoders on natural numbers (the JSON decoder returns the length of the text, the BSON
  decoder always 0), and options that name the BSON parser.
\<close>

definition failing_db :: "'d database" where
  "failing_db = db_ok\<lparr>createCollection_cb := (\<lambda>_ _. Some ''collection already exists''),
     bulkWrite_cb := (\<lambda>_ _ _. Some ''write failed'')\<rparr>"

definition example_readdir :: "string \<Rightarrow> string list option" where
  "example_readdir p =
     (if p = ''/dump/'' then Some [''mydb'']
      else if p = ''/dump/mydb'' then Some [''users'', ''.metadata'']
      else if p = ''/dump/mydb/users'' then Some [''doc1.json'']
      else if p = ''/dump/mydb/.metadata'' then Some [''users'']
      else if p = ''/two/'' then Some [''mydb'', ''other'']
      else if p = ''/proto/'' then Some [''mydb'']
      else if p = ''/proto/mydb'' then Some [''__proto__'', ''.metadata'']
      else if p = ''/proto/mydb/__proto__'' then Some [''doc1.json'']
      else if p = ''/proto/mydb/.metadata'' then Some [''__proto__'']
      else None)"

definition example_env :: "nat document env" where
  "example_env =
     \<lparr>env_db = db_ok,
      JSON_parse = (\<lambda>b. Some (JsValue (length b))),
      BSON_deserialize = (\<lambda>b. Some (JsValue 0)),
      readdirSync = example_readdir,
      path_join = (\<lambda>a b. (if a \<noteq> [] \<and> last a = CHR ''/'' then a else a @ ''/'') @ b),
      createReadStream = (\<lambda>p. p),
      tar_extract = (\<lambda>b. [])\<rparr>"

definition example_my :: "nat document my" where
  "example_my =
     \<lparr>my_uri = ''mongodb://localhost/test'', my_root = ''/dump/'', my_stream = None,
      my_parser = Parser_string ''BSON'', my_callback = True, my_tar = Tar_null,
      my_logger = None, my_metadata = False, my_drop = False,
      my_dropCollections = DropCollections_null\<rparr>"

definition listing_fails_env :: "nat document env" where
  "listing_fails_env =
     example_env\<lparr>env_db := db_ok\<lparr>collections_cb := (\<lambda>_. Inl ''listing failed'')\<rparr>\<rparr>"

section \<open>Basic facts\<close>

subsection \<open>State updates and traces\<close>

lemma emit_simps [simp]:
  "events (emit e s) = events s @ [e]"
  "dataToWrite (emit e s) = dataToWrite s"
  "dataToWrite_proto (emit e s) = dataToWrite_proto s"
  "metadata (emit e s) = metadata s"
  by (simp_all add: emit_def)

lemma logger_simps [simp]:
  "events (logger m s) = events s @ [Log m]"
  "dataToWrite (logger m s) = dataToWrite s"
  "dataToWrite_proto (logger m s) = dataToWrite_proto s"
  "metadata (logger m s) = metadata s"
  by (simp_all add: logger_def)

lemma error_simps [simp]:
  "events (error e s) = events s @ (case e of None \<Rightarrow> [] | Some m \<Rightarrow> [Log m])"
  "dataToWrite (error e s) = dataToWrite s"
  "dataToWrite_proto (error e s) = dataToWrite_proto s"
  "metadata (error e s) = metadata s"
  "error None s = s"
  by (simp_all add: error_def split: option.splits)

lemma db_close_simps [simp]:
  "events (db_close s) = events s @ [Req Close]"
  "dataToWrite (db_close s) = dataToWrite s"
  "dataToWrite_proto (db_close s) = dataToWrite_proto s"
  "metadata (db_close s) = metadata s"
  by (simp_all add: db_close_def)

lemma keys_simps [simp]:
  "keys (emit e s) = keys s"
  "keys (logger m s) = keys s"
  "keys (error x s) = keys s"
  "keys (db_close s) = keys s"
  by (simp_all add: keys_def)

lemma pending_ok_simps [simp]:
  "pending_ok (emit e s) = pending_ok s"
  "pending_ok (logger m s) = pending_ok s"
  "pending_ok (error x s) = pending_ok s"
  "pending_ok (db_close s) = pending_ok s"
  by (simp_all add: pending_ok_def)

lemma lookup_array_simps [simp]:
  "lookup_array (emit e s) n = lookup_array s n"
  "lookup_array (logger m s) n = lookup_array s n"
  "lookup_array (error x s) n = lookup_array s n"
  "lookup_array (db_close s) n = lookup_array s n"
  "lookup_array (s\<lparr>events := evs\<rparr>) n = lookup_array s n"
  "lookup_array (s\<lparr>metadata := md\<rparr>) n = lookup_array s n"
  by (simp_all add: lookup_array_def split: option.splits)

lemma pending_simps [simp]:
  "pending (emit e s) n = pending s n"
  "pending (logger m s) n = pending s n"
  "pending (error x s) n = pending s n"
  "pending (db_close s) n = pending s n"
  "pending (s\<lparr>events := evs\<rparr>) n = pending s n"
  "pending (s\<lparr>metadata := md\<rparr>) n = pending s n"
  by (simp_all add: pending_def)

lemma requests_append [simp]: "requests (xs @ ys) = requests xs @ requests ys"
  by (induction xs rule: requests.induct) simp_all

lemma issues_only_refl [simp]: "issues_only Q s s"
  by (simp add: issues_only_def)

lemma issues_only_trans:
  "issues_only Q s s1 \<Longrightarrow> issues_only Q s1 s2 \<Longrightarrow> issues_only Q s s2"
  by (auto simp add: issues_only_def)

lemma issues_only_mono:
  "issues_only Q s s' \<Longrightarrow> (\<And>r. Q r \<Longrightarrow> Q' r) \<Longrightarrow> issues_only Q' s s'"
  by (auto simp add: issues_only_def list_all_iff)

lemma issues_only_log [simp]:
  "issues_only Q s (logger m s)"
  "issues_only Q s (error e s)"
  "issues_only Q s (emit (Log m) s)"
  "issues_only Q s (emit (Callback e) s)"
  by (simp_all add: issues_only_def split: option.splits)

lemma issues_only_req: "Q r \<Longrightarrow> issues_only Q s (emit (Req r) s)"
  by (simp add: issues_only_def)

lemma issues_only_then_log:
  "issues_only Q s s1 \<Longrightarrow> issues_only Q s (logger m s1)"
  "issues_only Q s s1 \<Longrightarrow> issues_only Q s (error e s1)"
  by (erule issues_only_trans, simp)+

subsection \<open>The order of keys\<close>

lemma set_object_keys [simp]: "set (object_keys kvs) = fst ` set kvs"
  by (auto simp add: object_keys_def)

lemma object_keys_Nil [simp]: "object_keys kvs = [] \<longleftrightarrow> kvs = []"
proof -
  have "object_keys kvs = [] \<longleftrightarrow> set (object_keys kvs) = {}" by (simp only: set_empty)
  then show ?thesis by simp
qed

lemma hd_object_keys: "kvs \<noteq> [] \<Longrightarrow> hd (object_keys kvs) \<in> fst ` set kvs"
proof -
  assume "kvs \<noteq> []"
  then have "object_keys kvs \<noteq> []" by simp
  then have "hd (object_keys kvs) \<in> set (object_keys kvs)" by (rule hd_in_set)
  then show ?thesis by simp
qed

subsection \<open>Reading and writing the pending map\<close>

lemma lookup_array_own:
  "map_of (dataToWrite s) n = Some docs \<Longrightarrow> lookup_array s n = Some docs"
  by (simp add: lookup_array_def)

lemma lookup_array_key:
  assumes "n \<in> keys s"
  shows "\<exists>docs. map_of (dataToWrite s) n = Some docs \<and> lookup_array s n = Some docs
     \<and> (n, docs) \<in> set (dataToWrite s)"
proof -
  from assms obtain docs where m: "map_of (dataToWrite s) n = Some docs"
    by (cases "map_of (dataToWrite s) n") (auto simp add: keys_def map_of_eq_None_iff)
  then have "(n, docs) \<in> set (dataToWrite s)" by (rule map_of_SomeD)
  with m show ?thesis by (auto simp add: lookup_array_own)
qed

lemma lookup_array_initial [simp]: "lookup_array initial n = None"
  by (simp add: lookup_array_def initial_def)

lemma lookup_array_plain:
  "dataToWrite_proto s = None \<Longrightarrow> lookup_array s n = map_of (dataToWrite s) n"
  by (simp add: lookup_array_def split: option.splits)

lemma set_update_subset:
  "set (AList.update k v al) \<subseteq> insert (k, v) (set al)"
  by (induction al) auto

lemma pending_ok_update:
  assumes "pending_ok s" "v \<noteq> []" "dataToWrite s' = AList.update k v (dataToWrite s)"
  shows "pending_ok s'"
  using assms set_update_subset[of k v "dataToWrite s"]
  unfolding pending_ok_def by (simp add: distinct_update) blast

lemma pending_ok_same:
  "dataToWrite s' = dataToWrite s \<Longrightarrow> pending_ok s' = pending_ok s"
  by (simp add: pending_ok_def)

lemma keys_same: "dataToWrite s' = dataToWrite s \<Longrightarrow> keys s' = keys s"
  by (simp add: keys_def)

text \<open>
  The first statement of \<^verbatim>\<open>addDocument\<close>: the state after the push or the assignment.
  Whatever the name, the second lookup finds the buffer extended by the document.
\<close>

lemma push_effect:
  assumes "lookup_array s n = Some docs"
  shows "events (push n d s) = events s" and "metadata (push n d s) = metadata s"
    and "lookup_array (push n d s) n = Some (docs @ [d])"
    and "dataToWrite (push n d s) = dataToWrite s
         \<or> n \<in> keys s \<and> dataToWrite (push n d s) = AList.update n (docs @ [d]) (dataToWrite s)"
proof -
  show "events (push n d s) = events s" "metadata (push n d s) = metadata s"
    by (simp_all add: push_def split: option.splits document.splits)
  show "lookup_array (push n d s) n = Some (docs @ [d])"
  proof (cases "map_of (dataToWrite s) n")
    case (Some b)
    with assms have "b = docs" by (simp add: lookup_array_def)
    with Some show ?thesis by (simp add: push_def lookup_array_def update_conv')
  next
    case None
    with assms obtain P where P: "dataToWrite_proto s = Some P"
      by (cases "dataToWrite_proto s") (simp_all add: lookup_array_def)
    show ?thesis
    proof (cases "n = ''__proto__''")
      case True
      with None P assms show ?thesis by (simp add: push_def lookup_array_def)
    next
      case False
      with None P assms have i: "is_array_index n" "decimal n < length P"
        by (simp_all add: lookup_array_def split: if_splits)
      with False None P assms have e: "P ! decimal n = JsArray docs"
        by (cases "P ! decimal n") (simp_all add: lookup_array_def)
      with False None P i show ?thesis by (simp add: push_def lookup_array_def)
    qed
  qed
  show "dataToWrite (push n d s) = dataToWrite s
         \<or> n \<in> keys s \<and> dataToWrite (push n d s) = AList.update n (docs @ [d]) (dataToWrite s)"
  proof (cases "map_of (dataToWrite s) n")
    case None
    then show ?thesis by (simp add: push_def split: option.splits document.splits)
  next
    case (Some b)
    then have "(n, b) \<in> set (dataToWrite s)" by (rule map_of_SomeD)
    then have "n \<in> keys s" by (force simp add: keys_def)
    with Some assms show ?thesis by (simp add: push_def lookup_array_def)
  qed
qed

lemma assign_effect:
  assumes "lookup_array s n = None"
  shows "events (assign n [d] s) = events s" and "metadata (assign n [d] s) = metadata s"
    and "lookup_array (assign n [d] s) n = Some [d]"
    and "dataToWrite (assign n [d] s) = dataToWrite s
         \<or> dataToWrite (assign n [d] s) = AList.update n [d] (dataToWrite s)"
proof -
  show "events (assign n [d] s) = events s" "metadata (assign n [d] s) = metadata s"
    "dataToWrite (assign n [d] s) = dataToWrite s
         \<or> dataToWrite (assign n [d] s) = AList.update n [d] (dataToWrite s)"
    by (simp_all add: assign_def)
  from assms have "map_of (dataToWrite s) n = None"
    by (simp add: lookup_array_def split: option.splits)
  then show "lookup_array (assign n [d] s) n = Some [d]"
    by (auto simp add: assign_def lookup_array_def update_conv' split: option.splits)
qed

lemma lookup_after_add:
  "lookup_array (case lookup_array s n of Some _ \<Rightarrow> push n d s | None \<Rightarrow> assign n [d] s) n
     = Some (pending s n @ [d])"
  by (cases "lookup_array s n") (simp_all add: pending_def push_effect(3) assign_effect(3))

lemma add_effect:
  fixes s n d
  defines "s1 \<equiv> (case lookup_array s n of Some _ \<Rightarrow> push n d s | None \<Rightarrow> assign n [d] s)"
  shows "events s1 = events s" and "metadata s1 = metadata s"
    and "keys s1 \<subseteq> insert n (keys s)"
    and "pending_ok s \<Longrightarrow> pending_ok s1"
proof -
  have d: "dataToWrite s1 = dataToWrite s
      \<or> dataToWrite s1 = AList.update n (pending s n @ [d]) (dataToWrite s)"
  proof (cases "lookup_array s n")
    case None
    with assign_effect(4)[OF None, of d] show ?thesis by (simp add: s1_def pending_def)
  next
    case (Some docs)
    with push_effect(4)[OF Some, of d] show ?thesis by (auto simp add: s1_def pending_def)
  qed
  have "events s1 = events s \<and> metadata s1 = metadata s"
  proof (cases "lookup_array s n")
    case None
    then show ?thesis by (simp add: s1_def assign_def)
  next
    case (Some docs)
    then show ?thesis by (simp add: s1_def push_effect(1,2)[OF Some])
  qed
  then show "events s1 = events s" "metadata s1 = metadata s" by simp_all
  from d show "keys s1 \<subseteq> insert n (keys s)"
    by (elim disjE) (simp_all add: keys_def dom_update subset_insertI)
  assume ok: "pending_ok s"
  from d show "pending_ok s1"
  proof
    assume "dataToWrite s1 = dataToWrite s"
    with ok show ?thesis by (simp add: pending_ok_def)
  next
    assume "dataToWrite s1 = AList.update n (pending s n @ [d]) (dataToWrite s)"
    then show ?thesis
      by (rule pending_ok_update[OF ok, where v = "pending s n @ [d]" and k = n, rotated]) simp
  qed
qed

subsection \<open>Flushing one collection\<close>

lemma writeAll_missing:
  "lookup_array s n = None \<Longrightarrow>
     writeAllInCollection db n s
       = (Inl (TypeError ''dataToWrite[collectionName].map is not a function''), s)"
  by (simp add: writeAllInCollection_def)

lemma writeAll_empty:
  "lookup_array s n = Some [] \<Longrightarrow> writeAllInCollection db n s = (Inr None, s)"
  by (simp add: writeAllInCollection_def)

lemma writeAll_flush:
  assumes "lookup_array s n = Some docs" "docs \<noteq> []"
  shows "writeAllInCollection db n s =
     (case collection_cb db (events s) n of
        None \<Rightarrow>
          (Inr (bulkWrite_cb db (events s @ [Req (Collection n)]) n docs),
           s\<lparr>events := events s @ [Req (Collection n), Req (BulkWrite n docs)],
             dataToWrite := AList.delete n (dataToWrite s)\<rparr>)
      | Some e \<Rightarrow>
          (Inl (TypeError ''Cannot read property bulkWrite of undefined''),
           s\<lparr>events := events s @ [Req (Collection n), Log e]\<rparr>))"
  using assms
  by (auto simp add: writeAllInCollection_def db_collection_def collection_bulkWrite_def
      emit_def error_def logger_def split: option.splits)

lemma writeAll_effect:
  assumes "writeAllInCollection db n s = (r, s')"
  shows "metadata s' = metadata s"
    and "dataToWrite s' = dataToWrite s \<or> dataToWrite s' = AList.delete n (dataToWrite s)"
    and "n \<in> K \<Longrightarrow> issues_only (writer_request K) s s'"
    and "dataToWrite_proto s' = dataToWrite_proto s"
proof -
  consider (a) "lookup_array s n = None" | (b) "lookup_array s n = Some []"
    | (c) docs where "lookup_array s n = Some docs" "docs \<noteq> []"
    by (cases "lookup_array s n") auto
  then have "metadata s' = metadata s
     \<and> (dataToWrite s' = dataToWrite s \<or> dataToWrite s' = AList.delete n (dataToWrite s))
     \<and> (n \<in> K \<longrightarrow> issues_only (writer_request K) s s')
     \<and> dataToWrite_proto s' = dataToWrite_proto s"
  proof cases
    case a
    with assms show ?thesis by (simp add: writeAll_missing)
  next
    case b
    with assms show ?thesis by (simp add: writeAll_empty)
  next
    case c
    with assms show ?thesis
      by (auto simp add: writeAll_flush issues_only_def split: option.splits)
  qed
  then show "metadata s' = metadata s"
    and "dataToWrite s' = dataToWrite s \<or> dataToWrite s' = AList.delete n (dataToWrite s)"
    and "n \<in> K \<Longrightarrow> issues_only (writer_request K) s s'"
    and "dataToWrite_proto s' = dataToWrite_proto s"
    by simp_all
qed

lemma pending_ok_delete:
  "pending_ok s \<Longrightarrow> dataToWrite s' = AList.delete n (dataToWrite s) \<Longrightarrow> pending_ok s'"
  unfolding pending_ok_def by (simp add: distinct_delete) (auto simp add: AList.delete_eq)

lemma writeAll_pending_ok:
  assumes "writeAllInCollection db n s = (r, s')" "pending_ok s"
  shows "pending_ok s'"
proof -
  from writeAll_effect(2)[OF assms(1)]
  show ?thesis
  proof
    assume "dataToWrite s' = dataToWrite s"
    with assms(2) show ?thesis by (simp add: pending_ok_def)
  next
    assume "dataToWrite s' = AList.delete n (dataToWrite s)"
    with assms(2) show ?thesis by (rule pending_ok_delete)
  qed
qed

lemma writeAll_keys:
  assumes "writeAllInCollection db n s = (r, s')"
  shows "keys s' \<subseteq> keys s"
proof -
  from writeAll_effect(2)[OF assms]
  show ?thesis
  proof
    assume "dataToWrite s' = dataToWrite s"
    then show ?thesis by (simp add: keys_def)
  next
    assume "dataToWrite s' = AList.delete n (dataToWrite s)"
    then show ?thesis using dom_delete_subset[of n "dataToWrite s"] by (simp add: keys_def)
  qed
qed

subsection \<open>Creating collections and adding documents\<close>

lemma createCollection_eq:
  "createCollection db n s = (Inr (createCollection_cb db (events s) n), emit (Req (CreateCollection n)) s)"
  by (simp add: createCollection_def db_createCollection_def)

lemma addDocument_below:
  "length (pending s n) < 50 \<Longrightarrow>
     addDocument db n d s =
       (Inr None, case lookup_array s n of Some _ \<Rightarrow> push n d s | None \<Rightarrow> assign n [d] s)"
  by (simp add: addDocument_def Let_def lookup_after_add)

lemma addDocument_flush:
  fixes s n d
  defines "s1 \<equiv> (case lookup_array s n of Some _ \<Rightarrow> push n d s | None \<Rightarrow> assign n [d] s)"
  assumes "50 \<le> length (pending s n)"
  shows "addDocument db n d s =
       (case collection_cb db (events s) n of
          None \<Rightarrow>
            (Inr (bulkWrite_cb db (events s @ [Req (Collection n)]) n (pending s n @ [d])),
             s1\<lparr>events := events s @ [Req (Collection n), Req (BulkWrite n (pending s n @ [d]))],
                dataToWrite := AList.delete n (dataToWrite s1)\<rparr>)
        | Some e \<Rightarrow>
            (Inl (TypeError ''Cannot read property bulkWrite of undefined''),
             s1\<lparr>events := events s @ [Req (Collection n), Log e]\<rparr>))"
proof -
  have m: "lookup_array s1 n = Some (pending s n @ [d])"
    unfolding s1_def by (rule lookup_after_add)
  have ev: "events s1 = events s" unfolding s1_def by (rule add_effect(1))
  have "addDocument db n d s = writeAllInCollection db n s1"
    using assms(2) m[unfolded s1_def] by (simp add: addDocument_def Let_def s1_def)
  also have "\<dots> = (case collection_cb db (events s1) n of
        None \<Rightarrow>
          (Inr (bulkWrite_cb db (events s1 @ [Req (Collection n)]) n (pending s n @ [d])),
           s1\<lparr>events := events s1 @ [Req (Collection n), Req (BulkWrite n (pending s n @ [d]))],
             dataToWrite := AList.delete n (dataToWrite s1)\<rparr>)
      | Some e \<Rightarrow>
          (Inl (TypeError ''Cannot read property bulkWrite of undefined''),
           s1\<lparr>events := events s1 @ [Req (Collection n), Log e]\<rparr>))"
    by (rule writeAll_flush[OF m]) simp
  finally show ?thesis by (simp add: ev split: option.splits)
qed

lemma addDocument_effect:
  assumes "addDocument db n d s = (r, s')"
  shows "metadata s' = metadata s"
    and "keys s' \<subseteq> insert n (keys s)"
    and "pending_ok s \<Longrightarrow> pending_ok s'"
    and "n \<in> K \<Longrightarrow> issues_only (writer_request K) s s'"
proof -
  define s1 where "s1 = (case lookup_array s n of Some _ \<Rightarrow> push n d s | None \<Rightarrow> assign n [d] s)"
  note s1 = add_effect[where s = s and n = n and d = d, folded s1_def]
  have "metadata s' = metadata s \<and> keys s' \<subseteq> insert n (keys s)
     \<and> (pending_ok s \<longrightarrow> pending_ok s') \<and> (n \<in> K \<longrightarrow> issues_only (writer_request K) s s')"
  proof (cases "length (pending s n) < 50")
    case True
    with assms have s': "s' = s1" by (simp add: addDocument_below s1_def)
    show ?thesis using s1 by (auto simp add: s' issues_only_def)
  next
    case False
    then have len: "50 \<le> length (pending s n)" by simp
    show ?thesis
    proof (cases "collection_cb db (events s) n")
      case None
      with assms len
      have s': "s' = s1\<lparr>events := events s @ [Req (Collection n), Req (BulkWrite n (pending s n @ [d]))],
               dataToWrite := AList.delete n (dataToWrite s1)\<rparr>"
        by (simp add: addDocument_flush s1_def)
      have "pending_ok s \<Longrightarrow> pending_ok s'"
        by (rule pending_ok_delete[where n = n and s = s1]) (simp_all add: s' s1)
      moreover have "keys s' \<subseteq> keys s1"
        using dom_delete_subset[of n "dataToWrite s1"] by (simp add: s' keys_def)
      ultimately show ?thesis
        using s1 by (auto simp add: s' issues_only_def)
    next
      case (Some e)
      with assms len
      have s': "s' = s1\<lparr>events := events s @ [Req (Collection n), Log e]\<rparr>"
        by (simp add: addDocument_flush s1_def)
      have "pending_ok s' = pending_ok s1" "keys s' = keys s1"
        by (simp_all add: s' pending_ok_def keys_def)
      then show ?thesis
        using s1 by (auto simp add: s' issues_only_def)
    qed
  qed
  then show "metadata s' = metadata s"
    and "keys s' \<subseteq> insert n (keys s)"
    and "pending_ok s \<Longrightarrow> pending_ok s'"
    and "n \<in> K \<Longrightarrow> issues_only (writer_request K) s s'"
    by simp_all
qed

subsection \<open>Draining\<close>

lemma drain_Nil: "dataToWrite s = [] \<Longrightarrow> drain db s = Some (Inr None, s)"
  by (subst drain.simps) simp

lemma drain_step:
  "dataToWrite s \<noteq> [] \<Longrightarrow>
     drain db s =
       (case writeAllInCollection db (hd (object_keys (dataToWrite s))) s of
          (Inl f, s1) \<Rightarrow> Some (Inl f, s1)
        | (Inr err, s1) \<Rightarrow> drain db (error err s1))"
  by (subst drain.simps) (simp add: Let_def)

lemma drain_props:
  assumes "drain db s = Some y"
  shows "metadata (snd y) = metadata s \<and> keys (snd y) \<subseteq> keys s
     \<and> (pending_ok s \<longrightarrow> pending_ok (snd y))
     \<and> (keys s \<subseteq> K \<longrightarrow> issues_only (writer_request K) s (snd y))
     \<and> (\<forall>e. fst y = Inr e \<longrightarrow> e = None \<and> dataToWrite (snd y) = [])
     \<and> dataToWrite_proto (snd y) = dataToWrite_proto s"
proof -
  let ?P = "\<lambda>(db :: 'a document database) s y.
     metadata (snd y) = metadata s \<and> keys (snd y) \<subseteq> keys s
     \<and> (pending_ok s \<longrightarrow> pending_ok (snd y))
     \<and> (keys s \<subseteq> K \<longrightarrow> issues_only (writer_request K) s (snd y))
     \<and> (\<forall>e. fst y = Inr e \<longrightarrow> e = None \<and> dataToWrite (snd y) = [])
     \<and> dataToWrite_proto (snd y) = dataToWrite_proto s"
  have "?P db s y"
  proof (rule drain.raw_induct[where P = ?P, OF _ assms])
    fix drain' and db :: "'a document database" and s y
    assume ih: "\<And>db' s' y'. drain' db' s' = Some y' \<Longrightarrow> ?P db' s' y'"
      and body: "(if length (object_keys (dataToWrite s)) = 0 then Some (Inr None, s)
        else let collectionName = hd (object_keys (dataToWrite s))
             in case writeAllInCollection db collectionName s of
                  (Inl f, s1) \<Rightarrow> Some (Inl f, s1)
                | (Inr err, s1) \<Rightarrow> drain' db (error err s1)) = Some y"
    show "?P db s y"
    proof (cases "dataToWrite s = []")
      case True
      with body have "y = (Inr None, s)" by simp
      then show ?thesis using True by simp
    next
      case False
      let ?n = "hd (object_keys (dataToWrite s))"
      obtain r1 s1 where w: "writeAllInCollection db ?n s = (r1, s1)" by force
      have n: "?n \<in> keys s" using False by (simp add: keys_def hd_object_keys)
      note eff = writeAll_effect(1-3)[OF w] writeAll_keys[OF w] writeAll_pending_ok[OF w]
        writeAll_effect(4)[OF w]
      show ?thesis
      proof (cases r1)
        case (Inl f)
        with body False w have "y = (Inl f, s1)" by (simp add: Let_def)
        with eff n show ?thesis by auto
      next
        case (Inr e)
        with body False w have "drain' db (error e s1) = Some y" by (simp add: Let_def)
        from ih[OF this]
        have ih': "metadata (snd y) = metadata (error e s1)" "keys (snd y) \<subseteq> keys (error e s1)"
          "pending_ok (error e s1) \<Longrightarrow> pending_ok (snd y)"
          "keys (error e s1) \<subseteq> K \<Longrightarrow> issues_only (writer_request K) (error e s1) (snd y)"
          "\<forall>e. fst y = Inr e \<longrightarrow> e = None \<and> dataToWrite (snd y) = []"
          "dataToWrite_proto (snd y) = dataToWrite_proto (error e s1)"
          by simp_all
        have "keys s \<subseteq> K \<Longrightarrow> issues_only (writer_request K) s (snd y)"
        proof -
          assume K: "keys s \<subseteq> K"
          with n have "issues_only (writer_request K) s s1" by (auto intro: eff(3))
          then have "issues_only (writer_request K) s (error e s1)" by (rule issues_only_then_log)
          moreover have "issues_only (writer_request K) (error e s1) (snd y)"
            using K eff(4) by (intro ih'(4)) auto
          ultimately show ?thesis by (rule issues_only_trans)
        qed
        with ih' eff show ?thesis by auto
      qed
    qed
  qed
  then show ?thesis .
qed

lemma drain_total:
  "pending_ok s \<Longrightarrow>
     \<exists>r s'. drain db s = Some (r, s') \<and> ((\<forall>tr n. collection_cb db tr n = None) \<longrightarrow> r = Inr None)
       \<and> (r = Inr None \<or> r = Inl (TypeError ''Cannot read property bulkWrite of undefined''))"
proof (induction "length (dataToWrite s)" arbitrary: s rule: less_induct)
  case less
  show ?case
  proof (cases "dataToWrite s = []")
    case True
    then show ?thesis by (simp add: drain_Nil)
  next
    case False
    let ?n = "hd (object_keys (dataToWrite s))"
    have n: "?n \<in> fst ` set (dataToWrite s)" using False by (rule hd_object_keys)
    then obtain docs where m: "map_of (dataToWrite s) ?n = Some docs"
      by (cases "map_of (dataToWrite s) ?n") (auto simp add: map_of_eq_None_iff)
    then have "(?n, docs) \<in> set (dataToWrite s)" by (rule map_of_SomeD)
    with less.prems have ne: "docs \<noteq> []" by (auto simp add: pending_ok_def)
    show ?thesis
    proof (cases "collection_cb db (events s) ?n")
      case (Some e)
      then have "drain db s =
          Some (Inl (TypeError ''Cannot read property bulkWrite of undefined''),
                s\<lparr>events := events s @ [Req (Collection ?n), Log e]\<rparr>)"
        using False by (simp add: drain_step writeAll_flush[OF lookup_array_own[OF m] ne])
      with Some show ?thesis by auto
    next
      case None
      let ?s1 = "s\<lparr>events := events s @ [Req (Collection ?n), Req (BulkWrite ?n docs)],
             dataToWrite := AList.delete ?n (dataToWrite s)\<rparr>"
      let ?e = "bulkWrite_cb db (events s @ [Req (Collection ?n)]) ?n docs"
      have step: "drain db s = drain db (error ?e ?s1)"
        using False None by (simp add: drain_step writeAll_flush[OF lookup_array_own[OF m] ne])
      have "length (AList.delete ?n (dataToWrite s)) < length (dataToWrite s)"
        using n by (auto simp add: AList.delete_eq intro!: length_filter_less)
      then have "length (dataToWrite (error ?e ?s1)) < length (dataToWrite s)" by simp
      moreover have "pending_ok (error ?e ?s1)"
        using less.prems by (simp add: pending_ok_delete[where s = s and n = "?n"])
      ultimately have "\<exists>r s'. drain db (error ?e ?s1) = Some (r, s')
          \<and> ((\<forall>tr n. collection_cb db tr n = None) \<longrightarrow> r = Inr None)
          \<and> (r = Inr None \<or> r = Inl (TypeError ''Cannot read property bulkWrite of undefined''))"
        by (rule less.hyps)
      with step show ?thesis by simp
    qed
  qed
qed

subsection \<open>Replaying indexes\<close>

lemma addIndices_Nil [simp]: "addIndices db [] s = (Inr None, s)"
  by (simp add: addIndices.simps)

lemma addIndices_snoc:
  "addIndices db (ixs @ [(n, d)]) s =
     addIndices db ixs (error (command_cb db (events s) n d) (emit (Req (Command n d)) s))"
  by (subst addIndices.simps) (simp add: db_command_def)


lemma addIndices_props:
  "\<exists>new. addIndices db indices s = (Inr None, s\<lparr>events := events s @ new\<rparr>)
     \<and> requests new = map (\<lambda>(n, d). Command n d) (rev indices)"
proof (induction indices arbitrary: s rule: rev_induct)
  case Nil
  have "addIndices db [] s = (Inr None, s\<lparr>events := events s @ []\<rparr>) \<and> requests ([] :: 'a event list) = []"
    by simp
  then show ?case by (intro exI[of _ "[]"]) simp
next
  case (snoc x ixs)
  obtain n d where x: "x = (n, d)" by (cases x)
  let ?s1 = "error (command_cb db (events s) n d) (emit (Req (Command n d)) s)"
  obtain l where s1: "?s1 = s\<lparr>events := events s @ Req (Command n d) # l\<rparr>" "requests l = []"
    by (cases "command_cb db (events s) n d") (auto simp add: error_def emit_def logger_def)
  from snoc[of ?s1] obtain new where
    new: "addIndices db ixs ?s1 = (Inr None, ?s1\<lparr>events := events ?s1 @ new\<rparr>)"
      "requests new = map (\<lambda>(n, d). Command n d) (rev ixs)"
    by blast
  have "addIndices db (ixs @ [x]) s = (Inr None, s\<lparr>events := events s @ (Req (Command n d) # l @ new)\<rparr>)"
    unfolding x addIndices_snoc new(1) by (simp add: s1(1))
  moreover have "requests (Req (Command n d) # l @ new) = map (\<lambda>(n, d). Command n d) (rev (ixs @ [x]))"
    by (simp add: x s1(2) new(2))
  ultimately show ?case by blast
qed

lemma addIndices_issues: "issues_only index_request s (snd (addIndices db indices s))"
proof -
  from addIndices_props[of db indices s] obtain new where
    "addIndices db indices s = (Inr None, s\<lparr>events := events s @ new\<rparr>)"
    "requests new = map (\<lambda>(n, d). Command n d) (rev indices)"
    by blast
  then show ?thesis
    by (auto simp add: issues_only_def list_all_iff)
qed

subsection \<open>The listener's handlers\<close>

lemma steps_within_refl: "keys s \<subseteq> K \<Longrightarrow> steps_within K s s"
  by (simp add: steps_within_def)

lemma steps_within_trans:
  "steps_within K s s1 \<Longrightarrow> steps_within K s1 s2 \<Longrightarrow> steps_within K s s2"
  by (auto simp add: steps_within_def intro: issues_only_trans)

lemma steps_within_error: "steps_within K s s1 \<Longrightarrow> steps_within K s (error e s1)"
  by (auto simp add: steps_within_def intro: issues_only_then_log)

lemma steps_within_keys: "steps_within K s s' \<Longrightarrow> keys s' \<subseteq> K"
  by (simp add: steps_within_def)

lemma onDirectory_metadata:
  "collectionNameForDirectory (replace_backslashes directoryName) = Some ''.metadata'' \<Longrightarrow>
     onDirectory env directoryName s = (Inr None, s)"
  by (simp add: onDirectory_def)

lemma onDirectory_effect:
  assumes "onDirectory env directoryName s = (r, s')"
  shows "dataToWrite s' = dataToWrite s" and "metadata s' = metadata s"
    and "- {''.metadata''} \<subseteq> K \<Longrightarrow> issues_only (writer_request K) s s'"
  using assms
  by (auto simp add: onDirectory_def createCollection_eq issues_only_def
      split: option.splits if_splits)

lemma onDirectory_within:
  assumes "onDirectory env directoryName s = (r, s')" "- {''.metadata''} \<subseteq> K" "keys s \<subseteq> K"
  shows "steps_within K s s'"
  using onDirectory_effect[OF assms(1)] assms(2,3)
  by (simp add: steps_within_def keys_def pending_ok_def)

lemma metadataFilename_matches:
  "collectionNameForFiles s = Some n \<Longrightarrow> metadataFilenameRegexp s = Some (after_last_slash s)"
  by (auto simp add: collectionNameForFiles_def metadataFilenameRegexp_def
      split: option.splits if_splits)

lemma onFile_skipped:
  "collectionNameForFiles (replace_backslashes name) = Some ''.metadata'' \<Longrightarrow>
     onFile env parser False name stream s = (Inr None, s)"
  by (simp add: onFile_def metadataFilename_matches)

lemma onFile_metadata:
  "collectionNameForFiles (replace_backslashes name) = Some ''.metadata'' \<Longrightarrow>
     onFile env parser True name stream s =
       (case JSON_parse env stream of
          None \<Rightarrow> (Inl DecodeFailure, s)
        | Some document \<Rightarrow>
            (Inr None,
             s\<lparr>metadata := metadata s @ [(after_last_slash (replace_backslashes name), document)]\<rparr>))"
  by (simp add: onFile_def metadataFilename_matches parse_def jsonParser_def
      split: option.splits)

lemma onFile_document:
  "collectionNameForFiles (replace_backslashes name) = Some collectionName \<Longrightarrow>
   collectionName \<noteq> ''.metadata'' \<Longrightarrow>
     onFile env parser supportMetadata name stream s =
       (case parse parser stream of
          Inl f \<Rightarrow> (Inl f, s)
        | Inr document \<Rightarrow> addDocument (env_db env) collectionName document s)"
  by (simp add: onFile_def)

lemma onFile_nomatch:
  "collectionNameForFiles (replace_backslashes name) = None \<Longrightarrow>
     onFile env parser supportMetadata name stream s =
       (Inl (TypeError ''Cannot read property 1 of null''), s)"
  by (simp add: onFile_def)

lemma onFile_within:
  assumes "onFile env parser supportMetadata name stream s = (r, s')"
    and "- {''.metadata''} \<subseteq> K" "keys s \<subseteq> K"
  shows "steps_within K s s'"
proof (cases "collectionNameForFiles (replace_backslashes name)")
  case None
  with assms show ?thesis by (simp add: onFile_nomatch steps_within_refl)
next
  case (Some n)
  show ?thesis
  proof (cases "n = ''.metadata''")
    case True
    have "keys s' = keys s \<and> events s' = events s \<and> dataToWrite s' = dataToWrite s"
      using assms(1) Some True
      by (cases supportMetadata) (auto simp add: onFile_skipped onFile_metadata keys_def split: option.splits)
    with assms(3) show ?thesis by (simp add: steps_within_def issues_only_def pending_ok_def)
  next
    case False
    show ?thesis
    proof (cases "parse parser stream")
      case (Inl f)
      with assms Some False show ?thesis by (simp add: onFile_document steps_within_refl)
    next
      case (Inr d)
      with assms(1) Some False have a: "addDocument (env_db env) n d s = (r, s')"
        by (simp add: onFile_document)
      have "n \<in> K" using False assms(2) by auto
      with addDocument_effect[OF a] assms(3) show ?thesis
        by (auto simp add: steps_within_def)
    qed
  qed
qed

lemma onEntry_within:
  assumes "onEntry env parser supportMetadata e s = (r, s')"
    and "- {''.metadata''} \<subseteq> K" "keys s \<subseteq> K"
  shows "steps_within K s s'"
  using assms
  by (auto simp add: onEntry_def steps_within_refl split: if_splits
      intro: onDirectory_within onFile_within)

lemma extract_entries_within:
  assumes "extract_entries env parser supportMetadata es s = (r, s')"
    and "- {''.metadata''} \<subseteq> K" "keys s \<subseteq> K"
  shows "steps_within K s s'"
  using assms
proof (induction es arbitrary: s)
  case Nil
  then show ?case by (simp add: steps_within_refl)
next
  case (Cons e es)
  obtain r1 s1 where e: "onEntry env parser supportMetadata e s = (r1, s1)" by force
  from onEntry_within[OF e Cons.prems(2,3)] have w: "steps_within K s s1" .
  show ?case
  proof (cases r1)
    case (Inl f)
    with Cons.prems(1) e w show ?thesis by simp
  next
    case (Inr x)
    show ?thesis
    proof (cases x)
      case None
      with Cons.prems(1) e Inr have "extract_entries env parser supportMetadata es s1 = (r, s')"
        by simp
      from Cons.IH[OF this Cons.prems(2) steps_within_keys[OF w]] w
      show ?thesis by (rule steps_within_trans[rotated])
    next
      case (Some err)
      with Cons.prems(1) e Inr w show ?thesis by simp
    qed
  qed
qed

lemma addCollections_within:
  assumes "addCollections env collections s = (r, s')"
    and "- {''.metadata''} \<subseteq> K" "keys s \<subseteq> K"
  shows "steps_within K s s'"
  using assms
proof (induction collections arbitrary: s rule: rev_induct)
  case Nil
  then show ?case by (simp add: addCollections.simps steps_within_refl)
next
  case (snoc c cs)
  obtain r1 s1 where e: "onDirectory env c s = (r1, s1)" by force
  from onDirectory_within[OF e snoc.prems(2,3)] have w: "steps_within K s s1" .
  show ?case
  proof (cases r1)
    case (Inl f)
    with snoc.prems(1) e w show ?thesis by (simp add: addCollections.simps[of _ "cs @ [c]"])
  next
    case (Inr err)
    with snoc.prems(1) e have "addCollections env cs (error err s1) = (r, s')"
      by (simp add: addCollections.simps[of _ "cs @ [c]"])
    from snoc.IH[OF this snoc.prems(2)] steps_within_keys[OF w]
    have "steps_within K (error err s1) s'" by simp
    with steps_within_error[OF w] show ?thesis by (rule steps_within_trans)
  qed
qed

lemma addFiles_within:
  assumes "addFiles env parser supportMetadata files s = (r, s')"
    and "- {''.metadata''} \<subseteq> K" "keys s \<subseteq> K"
  shows "steps_within K s s'"
  using assms
proof (induction files arbitrary: s rule: rev_induct)
  case Nil
  then show ?case by (simp add: addFiles.simps steps_within_refl)
next
  case (snoc c cs)
  obtain r1 s1 where e: "onFile env parser supportMetadata c (createReadStream env c) s = (r1, s1)"
    by force
  from onFile_within[OF e snoc.prems(2,3)] have w: "steps_within K s s1" .
  show ?case
  proof (cases r1)
    case (Inl f)
    with snoc.prems(1) e w show ?thesis by (simp add: addFiles.simps[of _ _ _ "cs @ [c]"])
  next
    case (Inr err)
    with snoc.prems(1) e have "addFiles env parser supportMetadata cs (error err s1) = (r, s')"
      by (simp add: addFiles.simps[of _ _ _ "cs @ [c]"])
    from snoc.IH[OF this snoc.prems(2)] steps_within_keys[OF w]
    have "steps_within K (error err s1) s'" by simp
    with steps_within_error[OF w] show ?thesis by (rule steps_within_trans)
  qed
qed

subsection \<open>Finishing\<close>

lemma finish_thrown:
  "drain (env_db env) s = Some (Inl f, s1) \<Longrightarrow> finish env supportMetadata s = Some (Inl f, s1)"
  by (simp add: finish_def)

lemma finish_diverges:
  "drain (env_db env) s = None \<Longrightarrow> finish env supportMetadata s = None"
  by (simp add: finish_def)

lemma finish_drained:
  assumes "drain (env_db env) s = Some (Inr e, s1)"
  shows "finish env supportMetadata s =
     Some (Inr None,
           if supportMetadata
           then (snd (addIndices (env_db env) (metadata s) s1))\<lparr>metadata := []\<rparr>
           else s1)"
proof -
  from drain_props[OF assms, of UNIV] have e: "e = None" and m: "metadata s1 = metadata s"
    by simp_all
  from addIndices_props[of "env_db env" "metadata s" s1] obtain new where
    "addIndices (env_db env) (metadata s) s1 = (Inr None, s1\<lparr>events := events s1 @ new\<rparr>)"
    by blast
  then show ?thesis using assms e m by (simp add: finish_def)
qed

lemma finish_total:
  assumes "pending_ok s"
  shows "\<exists>y. finish env supportMetadata s = Some y"
proof -
  from drain_total[OF assms, of "env_db env"] obtain r s1 where
    d: "drain (env_db env) s = Some (r, s1)" by blast
  show ?thesis
  proof (cases r)
    case (Inl f)
    with d show ?thesis by (simp add: finish_thrown)
  next
    case (Inr e)
    with d show ?thesis by (simp add: finish_drained)
  qed
qed

lemma finish_False_within:
  assumes "finish env False s = Some (r, s')" "keys s \<subseteq> K"
  shows "steps_within K s s'"
proof -
  from assms(1) obtain r1 s1 where d: "drain (env_db env) s = Some (r1, s1)"
    by (cases "drain (env_db env) s") (auto simp add: finish_diverges)
  from drain_props[OF d, of K] assms(2) have w: "steps_within K s s1"
    by (auto simp add: steps_within_def)
  show ?thesis
  proof (cases r1)
    case (Inl f)
    with d assms(1) w show ?thesis by (simp add: finish_thrown)
  next
    case (Inr e)
    with d assms(1) w show ?thesis by (simp add: finish_drained)
  qed
qed

lemma steps_within_pending_ok: "steps_within K s s' \<Longrightarrow> pending_ok s \<Longrightarrow> pending_ok s'"
  by (simp add: steps_within_def)

subsection \<open>The data sources\<close>

lemma streamingTar_begin_total:
  assumes "pending_ok s"
  shows "\<exists>y. streamingTar_begin env parser supportMetadata es s = Some y"
proof -
  obtain r1 s1 where e: "extract_entries env parser supportMetadata es s = (r1, s1)" by force
  from extract_entries_within[OF e, of UNIV] have "steps_within UNIV s s1" by simp
  with assms have "pending_ok s1" by (rule steps_within_pending_ok[rotated])
  from finish_total[OF this, of env supportMetadata] e show ?thesis
    by (cases r1) (auto simp add: streamingTar_begin_def)
qed

lemma streamingTar_begin_within:
  assumes "streamingTar_begin env parser False es s = Some (r, s')"
    and "- {''.metadata''} \<subseteq> K" "keys s \<subseteq> K"
  shows "steps_within K s s'"
proof -
  obtain r1 s1 where e: "extract_entries env parser False es s = (r1, s1)" by force
  from extract_entries_within[OF e assms(2,3)] have w: "steps_within K s s1" .
  show ?thesis
  proof (cases r1)
    case (Inl f)
    with assms(1) e w show ?thesis by (simp add: streamingTar_begin_def)
  next
    case (Inr u)
    with assms(1) e have "finish env False s1 = Some (r, s')" by (simp add: streamingTar_begin_def)
    from finish_False_within[OF this steps_within_keys[OF w]] w show ?thesis
      by (rule steps_within_trans[rotated])
  qed
qed

lemma fileSystem_begin_wrong_dirs:
  "readdirSync env rootDir = Some dirs \<Longrightarrow> length dirs \<noteq> 1 \<Longrightarrow>
     fileSystem_begin env parser supportMetadata rootDir s =
       Some (Inr (Some ''Found multiple directories and only support one: [object JSON]''), s)"
  by (simp add: fileSystem_begin_def JSON_toString_def)

lemma fileSystem_begin_cases:
  assumes "fileSystem_begin env parser supportMetadata rootDir s = y"
  obtains (stopped) s1 r1 where "y = Some (r1, s1)" "steps_within UNIV s s1"
      "\<And>K. - {''.metadata''} \<subseteq> K \<Longrightarrow> keys s \<subseteq> K \<Longrightarrow> steps_within K s s1"
    | (finished) s1 where "y = finish env supportMetadata s1" "steps_within UNIV s s1"
      "\<And>K. - {''.metadata''} \<subseteq> K \<Longrightarrow> keys s \<subseteq> K \<Longrightarrow> steps_within K s s1"
proof (cases "readdirSync env rootDir")
  case None
  with assms have "y = Some (Inl (ReaddirFailure rootDir), s)" by (simp add: fileSystem_begin_def)
  then show ?thesis by (rule stopped) (simp_all add: steps_within_refl)
next
  case (Some dirs)
  show ?thesis
  proof (cases "length dirs \<noteq> 1")
    case True
    with Some assms
    have "y = Some (Inr (Some ''Found multiple directories and only support one: [object JSON]''), s)"
      by (simp add: fileSystem_begin_wrong_dirs)
    then show ?thesis by (rule stopped) (simp_all add: steps_within_refl)
  next
    case False
    let ?root = "path_join env rootDir (hd dirs)"
    show ?thesis
    proof (cases "readdirSync env ?root")
      case None
      with Some False assms have "y = Some (Inl (ReaddirFailure ?root), s)"
        by (simp add: fileSystem_begin_def Let_def)
      then show ?thesis by (rule stopped) (simp_all add: steps_within_refl)
    next
      case names: (Some names)
      obtain r1 s1 where c: "addCollections env (map (path_join env ?root) names) s = (r1, s1)"
        by force
      have w1: "\<And>K. - {''.metadata''} \<subseteq> K \<Longrightarrow> keys s \<subseteq> K \<Longrightarrow> steps_within K s s1"
        by (rule addCollections_within[OF c])
      show ?thesis
      proof (cases r1)
        case (Inl f)
        with Some False names c assms have "y = Some (Inl f, s1)"
          by (simp add: fileSystem_begin_def Let_def)
        then show ?thesis by (rule stopped) (simp_all add: w1)
      next
        case (Inr err)
        have w2: "\<And>K. - {''.metadata''} \<subseteq> K \<Longrightarrow> keys s \<subseteq> K \<Longrightarrow> steps_within K s (error err s1)"
          by (rule steps_within_error[OF w1])
        show ?thesis
        proof (cases "directoryArrays env ?root names")
          case None
          with Some False names c Inr assms
          have "y = Some (Inl (ReaddirFailure ?root), error err s1)"
            by (simp add: fileSystem_begin_def Let_def)
          then show ?thesis by (rule stopped) (simp_all add: w2)
        next
          case arrays: (Some arrays)
          obtain r3 s3 where
            f: "addFiles env parser supportMetadata (concat arrays) (error err s1) = (r3, s3)"
            by force
          have w3: "\<And>K. - {''.metadata''} \<subseteq> K \<Longrightarrow> keys s \<subseteq> K \<Longrightarrow> steps_within K s s3"
          proof -
            fix K :: "string set"
            assume K: "- {''.metadata''} \<subseteq> K" "keys s \<subseteq> K"
            from w2[OF K] have a: "steps_within K s (error err s1)" .
            from addFiles_within[OF f K(1) steps_within_keys[OF a]] a
            show "steps_within K s s3" by (rule steps_within_trans[rotated])
          qed
          show ?thesis
          proof (cases r3)
            case (Inl f')
            with Some False names c Inr arrays f assms have "y = Some (Inl f', s3)"
              by (simp add: fileSystem_begin_def Let_def)
            then show ?thesis by (rule stopped) (simp_all add: w3)
          next
            case r3: (Inr err')
            with Some False names c Inr arrays f assms
            have "y = finish env supportMetadata (error err' s3)"
              by (simp add: fileSystem_begin_def Let_def)
            then show ?thesis
              by (rule finished) (simp_all add: steps_within_error[OF w3])
          qed
        qed
      qed
    qed
  qed
qed

lemma fileSystem_begin_total:
  assumes "pending_ok s"
  shows "\<exists>y. fileSystem_begin env parser supportMetadata rootDir s = Some y"
proof -
  obtain y where y: "fileSystem_begin env parser supportMetadata rootDir s = y" by simp
  from y show ?thesis
  proof (cases rule: fileSystem_begin_cases)
    case (stopped s1 r1)
    with y show ?thesis by simp
  next
    case (finished s1)
    from finished(2) assms have "pending_ok s1" by (rule steps_within_pending_ok)
    from finish_total[OF this, of env supportMetadata] finished(1) y show ?thesis by simp
  qed
qed

lemma fileSystem_begin_within:
  assumes "fileSystem_begin env parser False rootDir s = Some (r, s')"
    and "- {''.metadata''} \<subseteq> K" "keys s \<subseteq> K"
  shows "steps_within K s s'"
  using assms(1)
proof (cases rule: fileSystem_begin_cases)
  case (stopped s1 r1)
  from stopped(1) stopped(3)[OF assms(2,3)] show ?thesis by simp
next
  case (finished s1)
  from finished(3)[OF assms(2,3)] have w: "steps_within K s s1" .
  from finished(1) have "finish env False s1 = Some (r, s')" by simp
  from finish_False_within[OF this steps_within_keys[OF w]] w show ?thesis
    by (rule steps_within_trans[rotated])
qed

lemma datasource_begin_total:
  "pending_ok s \<Longrightarrow> \<exists>y. datasource_begin env parser supportMetadata ds s = Some y"
  using fileSystem_begin_total[of s env parser supportMetadata]
    streamingTar_begin_total[of s env parser supportMetadata]
  by (cases ds) (simp_all add: datasource_begin_def)

lemma datasource_begin_within:
  assumes "datasource_begin env parser False ds s = Some (r, s')"
    and "- {''.metadata''} \<subseteq> K" "keys s \<subseteq> K"
  shows "steps_within K s s'"
  using assms
  by (cases ds)
    (auto simp add: datasource_begin_def intro: fileSystem_begin_within streamingTar_begin_within)

subsection \<open>Dropping collections\<close>

lemma select_and_drop_effect:
  assumes "select_and_drop db cs s = (r, s')"
    and "\<And>n. Q (Collection n)" "\<And>n. Q (Drop n)"
  shows "issues_only Q s s' \<and> dataToWrite s' = dataToWrite s \<and> metadata s' = metadata s"
  using assms(1)
proof (induction cs arbitrary: s r s')
  case Nil
  then show ?case by simp
next
  case (Cons c cs)
  show ?case
  proof (cases "collection_cb db (events s) c")
    case (Some e)
    with Cons.prems have "s' = emit (Req (Collection c)) s"
      by (simp add: db_collection_def)
    then show ?thesis by (simp add: issues_only_req assms(2))
  next
    case None
    let ?s2 = "emit (Req (Drop c)) (logger (''select collection '' @ c) (emit (Req (Collection c)) s))"
    obtain r3 s3 where rec: "select_and_drop db cs ?s2 = (r3, s3)" by force
    from Cons.IH[OF rec]
    have ih: "issues_only Q ?s2 s3" "dataToWrite s3 = dataToWrite s" "metadata s3 = metadata s"
      by simp_all
    have "s' = s3" using Cons.prems None rec
      by (cases r3) (simp_all add: db_collection_def collection_drop_def)
    moreover have "issues_only Q s ?s2"
      by (simp add: issues_only_def assms(2,3))
    ultimately show ?thesis using ih by (auto intro: issues_only_trans)
  qed
qed

lemma foldl_error_effect:
  "issues_only Q s (foldl (\<lambda>s' e. error e s') s errs)
   \<and> dataToWrite (foldl (\<lambda>s' e. error e s') s errs) = dataToWrite s
   \<and> metadata (foldl (\<lambda>s' e. error e s') s errs) = metadata s"
proof (induction errs arbitrary: s)
  case Nil
  show ?case by simp
next
  case (Cons e errs)
  from Cons[of "error e s"] show ?case
    by (auto intro: issues_only_trans[OF issues_only_log(2)])
qed

lemma someCollections_effect:
  assumes "someCollections db cs s = (r, s')"
    and "\<And>n. Q (Collection n)" "\<And>n. Q (Drop n)"
  shows "issues_only Q s s' \<and> dataToWrite s' = dataToWrite s \<and> metadata s' = metadata s"
proof (cases "cs = []")
  case True
  with assms(1) show ?thesis by (simp add: someCollections_def)
next
  case False
  obtain r1 s1 where sd: "select_and_drop db cs s = (r1, s1)" by force
  note e1 = select_and_drop_effect[OF sd assms(2,3)]
  show ?thesis
  proof (cases r1)
    case (Inl f)
    with assms(1) sd False e1 show ?thesis by (simp add: someCollections_def)
  next
    case (Inr errs)
    with assms(1) sd False have "s' = foldl (\<lambda>s' e. error e s') s1 errs"
      by (simp add: someCollections_def)
    with e1 foldl_error_effect[of Q s1 errs] show ?thesis
      by (auto intro: issues_only_trans)
  qed
qed

subsection \<open>The session\<close>

lemma callback_effect:
  "issues_only Q s (callback my e s) \<and> dataToWrite (callback my e s) = dataToWrite s
   \<and> metadata (callback my e s) = metadata s"
  by (simp add: callback_def Let_def issues_only_def split: option.splits)

lemma closing_effect:
  assumes "Q Close"
  shows "issues_only Q s (callback my e (db_close (logger m s)))"
  using assms
  by (simp add: callback_def Let_def issues_only_def split: option.splits)

lemma writer_request_not_index: "writer_request K r \<Longrightarrow> \<not> index_request r"
  by (cases r) simp_all

lemma steps_within_no_index:
  "steps_within K s s' \<Longrightarrow> issues_only (\<lambda>r. \<not> index_request r) s s'"
  unfolding steps_within_def
  by (erule conjE, erule issues_only_mono) (rule writer_request_not_index)

lemma session_request_not_index: "session_request r \<Longrightarrow> \<not> index_request r"
  by (cases r) simp_all

lemma importDataToDb_total:
  "pending_ok s \<Longrightarrow> \<exists>y. importDataToDb env my parser ds err s = Some y"
  using datasource_begin_total[of s env parser "my_metadata my" ds]
  by (cases err) (auto simp add: importDataToDb_def split: sum.splits)

lemma importDataToDb_no_index:
  assumes "importDataToDb env my parser ds err s = Some (r, s')" "\<not> my_metadata my"
  shows "issues_only (\<lambda>r. \<not> index_request r) s s'"
proof -
  let ?Q = "\<lambda>r :: 'a document request. \<not> index_request r"
  have cl: "\<And>e s1. issues_only ?Q s1 (callback my e (db_close (logger ''db close'' s1)))"
    by (rule closing_effect) simp
  show ?thesis
  proof (cases err)
    case (Some e)
    with assms(1) show ?thesis by (auto simp add: importDataToDb_def intro: cl)
  next
    case None
    with assms obtain r1 s1 where b: "datasource_begin env parser False ds s = Some (r1, s1)"
      by (cases "datasource_begin env parser False ds s") (auto simp add: importDataToDb_def)
    from datasource_begin_within[OF b, of UNIV]
    have w: "issues_only ?Q s s1"
      by (simp add: steps_within_no_index)
    show ?thesis
    proof (cases r1)
      case (Inl f)
      with assms None b w show ?thesis by (simp add: importDataToDb_def)
    next
      case (Inr e)
      with assms None b have "s' = callback my e (db_close (logger ''db close'' s1))"
        by (simp add: importDataToDb_def)
      with issues_only_trans[OF w cl] show ?thesis by simp
    qed
  qed
qed

text \<open>
  What \<^verbatim>\<open>go\<close> does before the import: it either stops (the connection failed and the
  completion callback was invoked, or the drop step threw), or it calls
  \<^verbatim>\<open>importDataToDb\<close>; up to there only requests of the session were issued and the
  writer and the listener were not touched.
\<close>

lemma go_cases:
  assumes "go env my parser ds s = y"
  obtains (stopped) r1 s1 where "y = Some (r1, s1)" "issues_only session_request s s1"
      "dataToWrite s1 = dataToWrite s" "metadata s1 = metadata s"
      "issues_only session_request (emit (Req (Connect (my_uri my))) s) s1"
    | (import) err s1 where "y = importDataToDb env my parser ds err s1"
      "issues_only session_request s s1"
      "dataToWrite s1 = dataToWrite s" "metadata s1 = metadata s"
      "issues_only session_request (emit (Req (Connect (my_uri my))) s) s1"
proof -
  let ?Q = "session_request :: 'a document request \<Rightarrow> bool"
  let ?s0 = "emit (Req (Connect (my_uri my))) s"
  let ?s2 = "logger ''db open'' ?s0"
  have s0: "issues_only ?Q s ?s0" by (simp add: issues_only_def)
  have s2: "issues_only ?Q ?s0 ?s2" by simp
  have sc: "\<And>cs s1 r2 s2. someCollections (env_db env) cs s1 = (r2, s2) \<Longrightarrow>
      issues_only ?Q s1 s2 \<and> dataToWrite s2 = dataToWrite s1 \<and> metadata s2 = metadata s1"
    by (rule someCollections_effect) simp_all
  have fin_stopped: "\<And>r1 s1. y = Some (r1, s1) \<Longrightarrow> issues_only ?Q ?s0 s1 \<Longrightarrow>
      dataToWrite s1 = dataToWrite s \<Longrightarrow> metadata s1 = metadata s \<Longrightarrow> thesis"
  proof -
    fix r1 s1
    assume a: "y = Some (r1, s1)" and b: "issues_only ?Q ?s0 s1"
      and c: "dataToWrite s1 = dataToWrite s" and d: "metadata s1 = metadata s"
    from s0 b have "issues_only ?Q s s1" by (rule issues_only_trans)
    then show thesis using a c d b by (intro stopped[of r1 s1])
  qed
  have fin_import: "\<And>err s1. y = importDataToDb env my parser ds err s1 \<Longrightarrow>
      issues_only ?Q ?s0 s1 \<Longrightarrow>
      dataToWrite s1 = dataToWrite s \<Longrightarrow> metadata s1 = metadata s \<Longrightarrow> thesis"
  proof -
    fix err s1
    assume a: "y = importDataToDb env my parser ds err s1" and b: "issues_only ?Q ?s0 s1"
      and c: "dataToWrite s1 = dataToWrite s" and d: "metadata s1 = metadata s"
    from s0 b have "issues_only ?Q s s1" by (rule issues_only_trans)
    then show thesis using a c d b by (intro import[of err s1])
  qed
  show ?thesis
  proof (cases "connect_cb (env_db env) (events s) (my_uri my)")
    case (Some e)
    with assms have a: "y = Some (Inr (Some e), callback my (Some e) ?s2)"
      by (simp add: go_def db_connect_def)
    have b: "issues_only ?Q ?s0 (callback my (Some e) ?s2)"
      by (rule issues_only_trans[OF s2 conjunct1[OF callback_effect]])
    have c: "dataToWrite (callback my (Some e) ?s2) = dataToWrite s"
      and d: "metadata (callback my (Some e) ?s2) = metadata s"
      using callback_effect[of ?Q ?s2 my "Some e"] by simp_all
    show ?thesis by (rule fin_stopped[OF a b c d])
  next
    case None
    show ?thesis
    proof (cases "my_drop my")
      case True
      let ?s3 = "emit (Req DropDatabase) (logger ''drop database'' ?s2)"
      have b: "issues_only ?Q ?s0 ?s3" by (simp add: issues_only_def)
      from assms None True
      have a: "y = importDataToDb env my parser ds
              (dropDatabase_cb (env_db env) (events (logger ''drop database'' ?s2))) ?s3"
        by (simp add: go_def db_connect_def db_dropDatabase_def)
      show ?thesis by (rule fin_import[OF a b]) simp_all
    next
      case False
      show ?thesis
      proof (cases "my_dropCollections my")
        case DropCollections_null
        with assms None False have a: "y = importDataToDb env my parser ds None ?s2"
          by (simp add: go_def db_connect_def)
        show ?thesis by (rule fin_import[OF a s2]) simp_all
      next
        case (DropCollections_array names)
        let ?s3 = "logger ''drop collections'' ?s2"
        obtain r4 s4 where c: "someCollections (env_db env) names ?s3 = (r4, s4)" by force
        have w: "issues_only ?Q ?s0 s4" "dataToWrite s4 = dataToWrite s" "metadata s4 = metadata s"
          using sc[OF c] by (auto simp add: issues_only_def)
        show ?thesis
        proof (cases r4)
          case (Inl f)
          with assms None False DropCollections_array c have a: "y = Some (Inl f, s4)"
            by (simp add: go_def db_connect_def)
          show ?thesis by (rule fin_stopped[OF a w])
        next
          case (Inr err)
          with assms None False DropCollections_array c
          have a: "y = importDataToDb env my parser ds err s4"
            by (simp add: go_def db_connect_def)
          show ?thesis by (rule fin_import[OF a w])
        qed
      next
        case DropCollections_other
        let ?s3 = "emit (Req Collections) (logger ''drop collections'' ?s2)"
        have s3: "issues_only ?Q ?s0 ?s3" by (simp add: issues_only_def)
        show ?thesis
        proof (cases "collections_cb (env_db env) (events (logger ''drop collections'' ?s2))")
          case (Inl e)
          with assms None False DropCollections_other
          have a: "y = Some (Inl (TypeError ''Cannot read property length of null''), error (Some e) ?s3)"
            by (simp add: go_def db_connect_def db_collections_def)
          have b: "issues_only ?Q ?s0 (error (Some e) ?s3)"
            using s3 by (rule issues_only_then_log)
          show ?thesis by (rule fin_stopped[OF a b]) simp_all
        next
          case (Inr collections)
          obtain r4 s4 where c: "someCollections (env_db env)
              (filter (\<lambda>collectionName. \<not> systemRegex_test collectionName) collections) ?s3 = (r4, s4)"
            by force
          have w: "issues_only ?Q ?s0 s4" "dataToWrite s4 = dataToWrite s" "metadata s4 = metadata s"
            using sc[OF c] s3 by (auto intro: issues_only_trans)
          show ?thesis
          proof (cases r4)
            case (Inl f)
            with assms None False DropCollections_other Inr c have a: "y = Some (Inl f, s4)"
              by (simp add: go_def db_connect_def db_collections_def)
            show ?thesis by (rule fin_stopped[OF a w])
          next
            case r4: (Inr err)
            with assms None False DropCollections_other Inr c
            have a: "y = importDataToDb env my parser ds err s4"
              by (simp add: go_def db_connect_def db_collections_def)
            show ?thesis by (rule fin_import[OF a w])
          qed
        qed
      qed
    qed
  qed
qed

lemma go_total:
  assumes "pending_ok s"
  shows "\<exists>y. go env my parser ds s = Some y"
proof -
  obtain y where y: "go env my parser ds s = y" by simp
  from y show ?thesis
  proof (cases rule: go_cases)
    case (stopped r1 s1)
    with y show ?thesis by simp
  next
    case (import err s1)
    from assms import(3) have "pending_ok s1" by (simp add: pending_ok_def)
    from importDataToDb_total[OF this, of env my parser ds err] import(1) y
    show ?thesis by simp
  qed
qed

lemma go_no_index:
  assumes "go env my parser ds s = Some (r, s')" "\<not> my_metadata my"
  shows "issues_only (\<lambda>r. \<not> index_request r) s s'"
  using assms(1)
proof (cases rule: go_cases)
  case (stopped r1 s1)
  from stopped(2) have "issues_only (\<lambda>r. \<not> index_request r) s s1"
    by (rule issues_only_mono) (rule session_request_not_index)
  with stopped(1) show ?thesis by simp
next
  case (import err s1)
  from import(2) have "issues_only (\<lambda>r. \<not> index_request r) s s1"
    by (rule issues_only_mono) (rule session_request_not_index)
  moreover from import(1) have "importDataToDb env my parser ds err s1 = Some (r, s')" by simp
  then have "issues_only (\<lambda>r. \<not> index_request r) s1 s'"
    using assms(2) by (rule importDataToDb_no_index)
  ultimately show ?thesis by (rule issues_only_trans)
qed

subsection \<open>Runs up to the listener's finish\<close>

lemma datasource_begin_cases:
  assumes "datasource_begin env parser supportMetadata ds s = y"
  obtains (stopped) r1 s1 where "y = Some (r1, s1)"
      "\<And>K. - {''.metadata''} \<subseteq> K \<Longrightarrow> keys s \<subseteq> K \<Longrightarrow> steps_within K s s1"
    | (finished) s1 where "y = finish env supportMetadata s1"
      "\<And>K. - {''.metadata''} \<subseteq> K \<Longrightarrow> keys s \<subseteq> K \<Longrightarrow> steps_within K s s1"
proof (cases ds)
  case (fileSystemDataSource rootDir)
  with assms have y: "fileSystem_begin env parser supportMetadata rootDir s = y"
    by (simp add: datasource_begin_def)
  from y show ?thesis
  proof (cases rule: fileSystem_begin_cases)
    case (stopped s1 r1)
    from stopped(1) stopped(3) show ?thesis by (rule that(1))
  next
    case (finished s1)
    from finished(1) finished(3) show ?thesis by (rule that(2))
  qed
next
  case (streamingTarDataSource es)
  obtain r1 s1 where e: "extract_entries env parser supportMetadata es s = (r1, s1)" by force
  have w: "\<And>K. - {''.metadata''} \<subseteq> K \<Longrightarrow> keys s \<subseteq> K \<Longrightarrow> steps_within K s s1"
    by (rule extract_entries_within[OF e])
  show ?thesis
  proof (cases r1)
    case (Inl f)
    with assms streamingTarDataSource e have "y = Some (Inl f, s1)"
      by (simp add: datasource_begin_def streamingTar_begin_def)
    then show ?thesis using w by (rule that(1))
  next
    case (Inr u)
    with assms streamingTarDataSource e have "y = finish env supportMetadata s1"
      by (simp add: datasource_begin_def streamingTar_begin_def)
    then show ?thesis using w by (rule that(2))
  qed
qed

lemma go_reaches_finish:
  assumes "go env my parser ds s = Some (r, s')"
  shows "issues_only (\<lambda>r. \<not> index_request r) s s'
    \<or> (\<exists>s0 r1 s1. issues_only (\<lambda>r. \<not> index_request r) s s0
          \<and> finish env (my_metadata my) s0 = Some (r1, s1)
          \<and> issues_only (\<lambda>r. \<not> index_request r) s1 s')"
proof -
  let ?Q = "\<lambda>r :: 'a document request. \<not> index_request r"
  have cl: "\<And>e s1. issues_only ?Q s1 (callback my e (db_close (logger ''db close'' s1)))"
    by (rule closing_effect) simp
  from assms show ?thesis
  proof (cases rule: go_cases)
    case (stopped r1 s1)
    from stopped(2) have "issues_only ?Q s s1"
      by (rule issues_only_mono) (rule session_request_not_index)
    with stopped(1) show ?thesis by simp
  next
    case (import err s1)
    from import(2) have pre: "issues_only ?Q s s1"
      by (rule issues_only_mono) (rule session_request_not_index)
    show ?thesis
    proof (cases err)
      case (Some e)
      with import(1) have "s' = callback my (Some e) (db_close (logger ''db close'' s1))"
        by (simp add: importDataToDb_def)
      with issues_only_trans[OF pre cl] show ?thesis by simp
    next
      case None
      obtain y where y: "datasource_begin env parser (my_metadata my) ds s1 = y" by simp
      have imp: "Some (r, s') = (case y of None \<Rightarrow> None
           | Some (Inl f, s2) \<Rightarrow> Some (Inl f, s2)
           | Some (Inr err', s2) \<Rightarrow>
               Some (Inr err', callback my err' (db_close (logger ''db close'' s2))))"
        using import(1) None y by (simp add: importDataToDb_def)
      from y show ?thesis
      proof (cases rule: datasource_begin_cases)
        case (stopped r2 s2)
        from stopped(2)[of UNIV] have "issues_only ?Q s1 s2" by (simp add: steps_within_no_index)
        with pre have p2: "issues_only ?Q s s2" by (rule issues_only_trans)
        from imp stopped(1) have "s' = s2 \<or> (\<exists>e. s' = callback my e (db_close (logger ''db close'' s2)))"
          by (cases r2) auto
        with p2 issues_only_trans[OF p2 cl] show ?thesis by auto
      next
        case (finished s2)
        from finished(2)[of UNIV] have "issues_only ?Q s1 s2" by (simp add: steps_within_no_index)
        with pre have p2: "issues_only ?Q s s2" by (rule issues_only_trans)
        from imp finished(1) obtain r3 s3 where
          f: "finish env (my_metadata my) s2 = Some (r3, s3)"
          by (cases "finish env (my_metadata my) s2") auto
        with imp finished(1)
        have "s' = s3 \<or> (\<exists>e. s' = callback my e (db_close (logger ''db close'' s3)))"
          by (cases r3) auto
        then have "issues_only ?Q s3 s'" using cl by auto
        with p2 f show ?thesis by blast
      qed
    qed
  qed
qed

subsection \<open>The wrapper\<close>

lemma wrapper_cases:
  assumes "wrapper env my s = y"
  obtains (thrown) "y = Some (Inl (Error ''missing parser option''), s)"
    | (run) parser ds s1 where "wrapper_parser env my = Inr parser" "y = go env my parser ds s1"
        "s1 = s \<or> s1 = logger ''restore start'' s"
proof (cases "wrapper_parser env my")
  case (Inl f)
  then have "f = Error ''missing parser option''"
    by (auto simp add: wrapper_parser_def split: parser_option.splits if_splits)
  with Inl assms show ?thesis by (intro thrown) (simp add: wrapper_def)
next
  case (Inr parser)
  let ?s1 = "case my_logger my of None \<Rightarrow> s | Some x \<Rightarrow> logger ''restore start'' s"
  have s1: "?s1 = s \<or> ?s1 = logger ''restore start'' s" by (simp split: option.splits)
  from Inr assms obtain ds where "y = go env my parser ds ?s1"
    by (auto simp add: wrapper_def Let_def split: if_splits option.splits)
  with Inr show ?thesis using s1 by (rule run)
qed

lemma wrapper_total:
  assumes "pending_ok s"
  shows "\<exists>y. wrapper env my s = Some y"
proof -
  obtain y where y: "wrapper env my s = y" by simp
  from y show ?thesis
  proof (cases rule: wrapper_cases)
    case thrown
    with y show ?thesis by simp
  next
    case (run parser ds s1)
    from run(3) assms have "pending_ok s1" by auto
    from go_total[OF this, of env my parser ds] run(2) y show ?thesis by simp
  qed
qed

lemma wrapper_no_index:
  assumes "wrapper env my s = Some (r, s')" "\<not> my_metadata my"
  shows "issues_only (\<lambda>r. \<not> index_request r) s s'"
  using assms(1)
proof (cases rule: wrapper_cases)
  case thrown
  then show ?thesis by simp
next
  case (run parser ds s1)
  from run(3) have "issues_only (\<lambda>r. \<not> index_request r) s s1" by auto
  moreover from run(2) have "go env my parser ds s1 = Some (r, s')" by simp
  then have "issues_only (\<lambda>r. \<not> index_request r) s1 s'" using assms(2) by (rule go_no_index)
  ultimately show ?thesis by (rule issues_only_trans)
qed

subsection \<open>Errors that the writer logs\<close>

lemma errors_logged_append:
  "errors_logged db pre a \<Longrightarrow> errors_logged db (pre @ a) b \<Longrightarrow> errors_logged db pre (a @ b)"
  by (induction db pre a rule: errors_logged.induct)
    (auto split: option.splits list.splits event.splits)

lemma writeAll_logged:
  assumes "writeAllInCollection db n s = (r, s1)"
  shows "\<exists>new. events (error (case r of Inl f \<Rightarrow> None | Inr e \<Rightarrow> e) s1) = events s @ new
     \<and> errors_logged db (events s) new"
proof -
  consider (a) "lookup_array s n = None" | (b) "lookup_array s n = Some []"
    | (c) docs where "lookup_array s n = Some docs" "docs \<noteq> []"
    by (cases "lookup_array s n") auto
  then show ?thesis
  proof cases
    case a
    with assms show ?thesis by (auto simp add: writeAll_missing)
  next
    case b
    with assms show ?thesis by (auto simp add: writeAll_empty)
  next
    case c
    with assms show ?thesis
      by (cases "collection_cb db (events s) n";
          cases "bulkWrite_cb db (events s @ [Req (Collection n)]) n docs")
        (auto simp add: writeAll_flush)
  qed
qed

lemma drain_logged:
  assumes "drain db s = Some y"
  shows "\<exists>new. events (snd y) = events s @ new \<and> errors_logged db (events s) new"
proof -
  let ?P = "\<lambda>(db :: 'a document database) s y.
     \<exists>new. events (snd y) = events s @ new \<and> errors_logged db (events s) new"
  have "?P db s y"
  proof (rule drain.raw_induct[where P = ?P, OF _ assms])
    fix drain' and db :: "'a document database" and s y
    assume ih: "\<And>db' s' y'. drain' db' s' = Some y' \<Longrightarrow> ?P db' s' y'"
      and body: "(if length (object_keys (dataToWrite s)) = 0 then Some (Inr None, s)
        else let collectionName = hd (object_keys (dataToWrite s))
             in case writeAllInCollection db collectionName s of
                  (Inl f, s1) \<Rightarrow> Some (Inl f, s1)
                | (Inr err, s1) \<Rightarrow> drain' db (error err s1)) = Some y"
    show "?P db s y"
    proof (cases "dataToWrite s = []")
      case True
      with body have "y = (Inr None, s)" by simp
      then show ?thesis by simp
    next
      case False
      let ?n = "hd (object_keys (dataToWrite s))"
      obtain r1 s1 where w: "writeAllInCollection db ?n s = (r1, s1)" by force
      from writeAll_logged[OF w] obtain new1 where
        n1: "events (error (case r1 of Inl f \<Rightarrow> None | Inr e \<Rightarrow> e) s1) = events s @ new1"
          "errors_logged db (events s) new1"
        by blast
      show ?thesis
      proof (cases r1)
        case (Inl f)
        with body False w have "y = (Inl f, s1)" by (simp add: Let_def)
        with n1 Inl show ?thesis by auto
      next
        case (Inr e)
        with body False w have "drain' db (error e s1) = Some y" by (simp add: Let_def)
        from ih[OF this] obtain new2 where
          n2: "events (snd y) = events (error e s1) @ new2"
            "errors_logged db (events (error e s1)) new2"
          by blast
        from n1 Inr have e1: "events (error e s1) = events s @ new1" by simp
        from n2 e1 have "events (snd y) = events s @ (new1 @ new2)" by simp
        moreover from n1(2) n2(2) e1 have "errors_logged db (events s) (new1 @ new2)"
          by (intro errors_logged_append) simp_all
        ultimately show ?thesis by blast
      qed
    qed
  qed
  then show ?thesis .
qed

lemma addIndices_logged:
  "\<exists>new. events (snd (addIndices db indices s)) = events s @ new
     \<and> errors_logged db (events s) new"
proof (induction indices arbitrary: s rule: rev_induct)
  case Nil
  show ?case by simp
next
  case (snoc x ixs)
  obtain n d where x: "x = (n, d)" by (cases x)
  let ?s1 = "error (command_cb db (events s) n d) (emit (Req (Command n d)) s)"
  obtain new1 where n1: "events ?s1 = events s @ new1" "errors_logged db (events s) new1"
    by (cases "command_cb db (events s) n d") auto
  from snoc[of ?s1] obtain new2 where
    n2: "events (snd (addIndices db ixs ?s1)) = events ?s1 @ new2"
      "errors_logged db (events ?s1) new2"
    by blast
  have "events (snd (addIndices db (ixs @ [x]) s)) = events s @ (new1 @ new2)"
    unfolding x addIndices_snoc using n1(1) n2(1) by simp
  moreover have "errors_logged db (events s) (new1 @ new2)"
    using n1 n2(2) by (intro errors_logged_append) simp_all
  ultimately show ?case by blast
qed

subsection \<open>Requests of finish\<close>

lemma finish_within:
  assumes "finish env supportMetadata s = Some (r, s')" "keys s \<subseteq> K"
  shows "issues_only (\<lambda>r. writer_request K r \<or> index_request r) s s'"
proof -
  let ?Q = "\<lambda>r :: 'a document request. writer_request K r \<or> index_request r"
  from assms(1) obtain r1 s1 where d: "drain (env_db env) s = Some (r1, s1)"
    by (cases "drain (env_db env) s") (auto simp add: finish_diverges)
  from drain_props[OF d, of K] assms(2) have "issues_only (writer_request K) s s1" by simp
  then have w: "issues_only ?Q s s1" by (rule issues_only_mono) simp
  show ?thesis
  proof (cases r1)
    case (Inl f)
    with d assms(1) w show ?thesis by (simp add: finish_thrown)
  next
    case (Inr e)
    have "issues_only index_request s1 (snd (addIndices (env_db env) (metadata s) s1))"
      by (rule addIndices_issues)
    then have "issues_only ?Q s1 (snd (addIndices (env_db env) (metadata s) s1))"
      by (rule issues_only_mono) simp
    then have "issues_only ?Q s1 ((snd (addIndices (env_db env) (metadata s) s1))\<lparr>metadata := []\<rparr>)"
      by (simp add: issues_only_def)
    with w have "issues_only ?Q s ((snd (addIndices (env_db env) (metadata s) s1))\<lparr>metadata := []\<rparr>)"
      by (rule issues_only_trans)
    with Inr d assms(1) w show ?thesis
      by (cases supportMetadata) (simp_all add: finish_drained)
  qed
qed

subsection \<open>A concrete run\<close>

text \<open>
  The run of \<^verbatim>\<open>wrapper\<close> on the example dump with metadata replay enabled: the directory
  \<^verbatim>\<open>.metadata\<close> is skipped, the collection \<^verbatim>\<open>users\<close> is created, its one document is
  decoded by the BSON decoder and flushed by \<^verbatim>\<open>drain\<close>, the index file is decoded by the
  JSON decoder and replayed, and the connection is closed.
\<close>

lemma toLowerCase_BSON: "toLowerCase ''BSON'' = ''bson''"
  by code_simp

lemma object_keys_users: "object_keys [(''users'', docs)] = [''users'']"
  by (simp add: object_keys_def is_array_index_def is_digit_def)

lemma example_run:
  "wrapper example_env (example_my\<lparr>my_metadata := True\<rparr>) initial =
     Some (Inr None,
       \<lparr>events =
          [Req (Connect ''mongodb://localhost/test''), Log ''db open'',
           Req (CreateCollection ''users''), Req (Collection ''users''),
           Req (BulkWrite ''users'' [JsValue 0]), Req (Command ''users'' (JsValue 26)),
           Log ''db close'', Req Close, Log ''restore stop'',
           Log ''callback run'', Callback None],
        dataToWrite = [], dataToWrite_proto = None, metadata = []\<rparr>)"
  by (simp add: wrapper_def wrapper_parser_def example_my_def toLowerCase_BSON go_def
      db_connect_def importDataToDb_def datasource_begin_def callback_def initial_def emit_def
      logger_def db_close_def fileSystem_begin_def example_env_def example_readdir_def Let_def
      addCollections.simps addFiles.simps onDirectory_def onFile_def directoryArrays_def
      collectionNameForDirectory_def collectionNameForFiles_def metadataFilenameRegexp_def
      replace_backslashes_def before_last_slash_def after_last_slash_def
      createCollection_def db_createCollection_def db_ok_def error_def parse_def
      bsonParser_def jsonParser_def addDocument_def lookup_array_def assign_def finish_def
      drain_step drain_Nil
      object_keys_users writeAllInCollection_def db_collection_def collection_bulkWrite_def
      addIndices.simps db_command_def)

text \<open>
  Once the prototype of the pending map is an array, a name that is an index of that
  array and finds an array document there has its documents appended to that document,
  and no key is created.
\<close>

lemma proto_element_example:
  "addDocument db_ok ''0'' (JsValue 5)
      (initial\<lparr>dataToWrite_proto := Some [JsArray [JsValue (1::nat)]]\<rparr>)
     = (Inr None, initial\<lparr>dataToWrite_proto := Some [JsArray [JsValue 1, JsValue 5]]\<rparr>)"
  by (simp add: addDocument_def lookup_array_def push_def initial_def is_array_index_def
      is_digit_def decimal_def)

section \<open>C1: the flush threshold of addDocument\<close>

subsection \<open>What addDocument does for every name\<close>

text \<open>
  \<^verbatim>\<open>addDocument\<close> appends the document to the buffer that it finds under the name. While
  the buffer then holds at most 50 documents, it acknowledges with no error and issues
  no request. When the buffer then holds more than 50 documents, it asks for the
  collection handle; if the driver hands the handle over, exactly one batched insert
  carrying the whole buffer, the new document last, is issued, the name is no key of the
  pending map afterwards, and the acknowledgment carries the answer of the insert; if
  the driver reports an error for the handle, the error is logged and the call throws.
\<close>

lemma addDocument_threshold_any_name:
  assumes "buffer = pending s n @ [d]" and "addDocument db n d s = (r, s')"
  shows "length buffer \<le> 50 \<Longrightarrow>
           r = Inr None \<and> events s' = events s \<and> pending s' n = buffer"
    and "length buffer > 50 \<Longrightarrow>
           (case collection_cb db (events s) n of
              None \<Rightarrow>
                r = Inr (bulkWrite_cb db (events s @ [Req (Collection n)]) n buffer)
                \<and> events s' = events s @ [Req (Collection n), Req (BulkWrite n buffer)]
                \<and> n \<notin> keys s'
            | Some e \<Rightarrow>
                r = Inl (TypeError ''Cannot read property bulkWrite of undefined'')
                \<and> events s' = events s @ [Req (Collection n), Log e])"
proof -
  define s1 where "s1 = (case lookup_array s n of Some _ \<Rightarrow> push n d s | None \<Rightarrow> assign n [d] s)"
  have l: "lookup_array s1 n = Some buffer" unfolding s1_def assms(1) by (rule lookup_after_add)
  have ev: "events s1 = events s" unfolding s1_def by (rule add_effect(1))
  {
    assume "length buffer \<le> 50"
    then have "length (pending s n) < 50" by (simp add: assms(1))
    with assms(2) have "r = Inr None" "s' = s1" by (simp_all add: addDocument_below s1_def)
    with l ev show "r = Inr None \<and> events s' = events s \<and> pending s' n = buffer"
      by (simp add: pending_def)
  }
  {
    assume "length buffer > 50"
    then have len: "50 \<le> length (pending s n)" by (simp add: assms(1))
    from addDocument_flush[OF len, of db d] assms(2)
    show "case collection_cb db (events s) n of
              None \<Rightarrow>
                r = Inr (bulkWrite_cb db (events s @ [Req (Collection n)]) n buffer)
                \<and> events s' = events s @ [Req (Collection n), Req (BulkWrite n buffer)]
                \<and> n \<notin> keys s'
            | Some e \<Rightarrow>
                r = Inl (TypeError ''Cannot read property bulkWrite of undefined'')
                \<and> events s' = events s @ [Req (Collection n), Log e]"
      by (cases "collection_cb db (events s) n")
        (auto simp add: assms(1) keys_def delete_notin_dom)
  }
qed

subsection \<open>A buffer kept under a key is empty after the flush\<close>

text \<open>
  While the prototype of the pending map has not been replaced, every name other than
  \<^verbatim>\<open>__proto__\<close> has its buffer under a key of its own: the flush on the 51st document
  removes the key, the name has no pending document left, and the buffers of the other
  names are not touched.
\<close>

lemma addDocument_flush_empties_key:
  assumes "dataToWrite_proto s = None" and "n \<noteq> ''__proto__''"
    and "50 \<le> length (pending s n)" and "collection_cb db (events s) n = None"
    and "addDocument db n d s = (r, s')"
  shows "pending s' n = []" and "m \<noteq> n \<Longrightarrow> pending s' m = pending s m"
    and "dataToWrite_proto s' = None"
proof -
  define s1 where "s1 = (case lookup_array s n of Some _ \<Rightarrow> push n d s | None \<Rightarrow> assign n [d] s)"
  have s1: "dataToWrite_proto s1 = None
      \<and> dataToWrite s1 = AList.update n (pending s n @ [d]) (dataToWrite s)"
  proof (cases "map_of (dataToWrite s) n")
    case None
    with assms(1) have "lookup_array s n = None" by (simp add: lookup_array_plain)
    with assms(1,2) show ?thesis by (simp add: s1_def assign_def pending_def)
  next
    case (Some docs)
    then have "lookup_array s n = Some docs" by (rule lookup_array_own)
    with Some assms(1) show ?thesis by (simp add: s1_def push_def pending_def)
  qed
  from addDocument_flush[OF assms(3), of db d] assms(4,5)
  have s': "s' = s1\<lparr>events := events s @ [Req (Collection n), Req (BulkWrite n (pending s n @ [d]))],
         dataToWrite := AList.delete n (dataToWrite s1)\<rparr>"
    by (simp add: s1_def)
  from s1 show p: "dataToWrite_proto s' = None" by (simp add: s')
  have d: "dataToWrite s' = AList.delete n (dataToWrite s)"
    using s1 by (simp add: s' delete_update_same)
  show "pending s' n = []"
    by (simp add: pending_def lookup_array_plain[OF p] d delete_conv')
  assume "m \<noteq> n"
  then show "pending s' m = pending s m"
    by (simp add: pending_def lookup_array_plain[OF p] lookup_array_plain[OF assms(1)] d
        delete_conv')
qed

subsection \<open>The claim\<close>

text \<open>
  Claim C1 says that, for every collection, the flush on the 51st document leaves the
  buffer of the collection empty before the acknowledgment. The program does not do
  this for the collection named \<^verbatim>\<open>__proto__\<close>. Its first document replaces the prototype
  of the pending map by the one-element buffer and creates no key; the next documents
  are pushed onto that array. After 50 documents the pending map has no key and the 50
  documents are in the prototype. The 51st document triggers the batched insert of the
  51 documents, and the acknowledgment carries no error, but the buffer is still in
  place, with its 51 documents, because \<^verbatim>\<open>delete\<close> removes own properties only. The 52nd
  document therefore inserts all 52 documents again.
\<close>

theorem addDocument_proto_buffer_survives_flush:
  "foldl (\<lambda>s d. snd (addDocument db_ok ''__proto__'' d s)) initial (replicate 50 (JsValue (7::nat)))
     = initial\<lparr>dataToWrite_proto := Some (replicate 50 (JsValue 7))\<rparr>
   \<and> addDocument db_ok ''__proto__'' (JsValue 8)
        (initial\<lparr>dataToWrite_proto := Some (replicate 50 (JsValue (7::nat)))\<rparr>)
     = (Inr None,
        \<lparr>events = [Req (Collection ''__proto__''),
                    Req (BulkWrite ''__proto__'' (replicate 50 (JsValue 7) @ [JsValue 8]))],
           dataToWrite = [],
           dataToWrite_proto = Some (replicate 50 (JsValue 7) @ [JsValue 8]),
           metadata = []\<rparr>)
   \<and> pending
        \<lparr>events = [Req (Collection ''__proto__''),
                    Req (BulkWrite ''__proto__'' (replicate 50 (JsValue 7) @ [JsValue 8]))],
           dataToWrite = [],
           dataToWrite_proto = Some (replicate 50 (JsValue (7::nat)) @ [JsValue 8]),
           metadata = []\<rparr> ''__proto__''
     = replicate 50 (JsValue 7) @ [JsValue 8]
   \<and> addDocument db_ok ''__proto__'' (JsValue 9)
        \<lparr>events = [Req (Collection ''__proto__''),
                    Req (BulkWrite ''__proto__'' (replicate 50 (JsValue 7) @ [JsValue 8]))],
           dataToWrite = [],
           dataToWrite_proto = Some (replicate 50 (JsValue (7::nat)) @ [JsValue 8]),
           metadata = []\<rparr>
     = (Inr None,
        \<lparr>events = [Req (Collection ''__proto__''),
                    Req (BulkWrite ''__proto__'' (replicate 50 (JsValue 7) @ [JsValue 8])),
                    Req (Collection ''__proto__''),
                    Req (BulkWrite ''__proto__''
                           (replicate 50 (JsValue 7) @ [JsValue 8, JsValue 9]))],
           dataToWrite = [],
           dataToWrite_proto = Some (replicate 50 (JsValue 7) @ [JsValue 8, JsValue 9]),
           metadata = []\<rparr>)"
proof -
  let ?f = "\<lambda>s d. snd (addDocument db_ok ''__proto__'' d s)"
  let ?d = "JsValue (7::nat)"
  let ?s50 = "initial\<lparr>dataToWrite_proto := Some (replicate 50 ?d)\<rparr>"
  let ?s51 = "\<lparr>events = [Req (Collection ''__proto__''),
                    Req (BulkWrite ''__proto__'' (replicate 50 ?d @ [JsValue 8]))],
           dataToWrite = [],
           dataToWrite_proto = Some (replicate 50 ?d @ [JsValue 8]),
           metadata = []\<rparr>"
  have first: "?f initial ?d = initial\<lparr>dataToWrite_proto := Some [?d]\<rparr>"
    by (simp add: addDocument_def lookup_array_def assign_def initial_def)
  have step: "?f (initial\<lparr>dataToWrite_proto := Some (replicate (Suc k) ?d)\<rparr>) ?d
      = initial\<lparr>dataToWrite_proto := Some (replicate (Suc (Suc k)) ?d)\<rparr>" if "Suc k < 50" for k
    using that
    by (simp add: addDocument_def lookup_array_def push_def initial_def
        replicate_append_same)
  have many: "Suc k \<le> 50 \<Longrightarrow>
      foldl ?f initial (replicate (Suc k) ?d)
        = initial\<lparr>dataToWrite_proto := Some (replicate (Suc k) ?d)\<rparr>" for k
  proof (induction k)
    case 0
    show ?case using first by simp
  next
    case (Suc k)
    have r: "replicate (Suc (Suc k)) ?d = replicate (Suc k) ?d @ [?d]"
      by (simp add: replicate_append_same)
    have "foldl ?f initial (replicate (Suc (Suc k)) ?d)
        = ?f (foldl ?f initial (replicate (Suc k) ?d)) ?d"
      by (simp only: r foldl_append foldl.simps)
    also have "\<dots> = ?f (initial\<lparr>dataToWrite_proto := Some (replicate (Suc k) ?d)\<rparr>) ?d"
      using Suc by simp
    also have "\<dots> = initial\<lparr>dataToWrite_proto := Some (replicate (Suc (Suc k)) ?d)\<rparr>"
      using Suc.prems by (intro step) simp
    finally show ?case .
  qed
  have a: "foldl ?f initial (replicate 50 ?d) = ?s50"
    using many[of 49] by simp
  have p50: "pending ?s50 ''__proto__'' = replicate 50 ?d"
    by (simp add: pending_def lookup_array_def initial_def)
  have b: "addDocument db_ok ''__proto__'' (JsValue 8) ?s50 = (Inr None, ?s51)"
    using addDocument_flush[where s = ?s50 and n = "''__proto__''" and db = db_ok and d = "JsValue 8"]
      p50
    by (simp add: db_ok_def lookup_array_def push_def initial_def)
  have p51: "pending ?s51 ''__proto__'' = replicate 50 ?d @ [JsValue 8]"
    by (simp add: pending_def lookup_array_def)
  have c: "addDocument db_ok ''__proto__'' (JsValue 9) ?s51
     = (Inr None,
        \<lparr>events = [Req (Collection ''__proto__''),
                    Req (BulkWrite ''__proto__'' (replicate 50 ?d @ [JsValue 8])),
                    Req (Collection ''__proto__''),
                    Req (BulkWrite ''__proto__'' (replicate 50 ?d @ [JsValue 8, JsValue 9]))],
           dataToWrite = [],
           dataToWrite_proto = Some (replicate 50 ?d @ [JsValue 8, JsValue 9]),
           metadata = []\<rparr>)"
    using addDocument_flush[where s = ?s51 and n = "''__proto__''" and db = db_ok and d = "JsValue 9"]
      p51
    by (simp add: db_ok_def lookup_array_def push_def)
  from a b p51 c show ?thesis by simp
qed

section \<open>C2: which database errors the writer keeps to itself\<close>

text \<open>
  Claim C2, as stated, fails: \<^verbatim>\<open>createCollection\<close> hands the callback of the driver's
  create-collection request straight to its caller, and \<^verbatim>\<open>addDocument\<close> passes the error
  of the batched insert on to \<^verbatim>\<open>next\<close>. With a database that refuses the collection, and
  with one that refuses the insert of the 51st document, the callback receives the
  error and nothing is logged.
\<close>

theorem writer_propagates_errors_counterexample:
  "createCollection failing_db ''users'' (initial :: nat document state)
     = (Inr (Some ''collection already exists''),
        \<lparr>events = [Req (CreateCollection ''users'')], dataToWrite = [],
           dataToWrite_proto = None, metadata = []\<rparr>)
   \<and> addDocument failing_db ''users'' (JsValue 8)
        \<lparr>events = [], dataToWrite = [(''users'', replicate 50 (JsValue (7::nat)))],
           dataToWrite_proto = None, metadata = []\<rparr>
     = (Inr (Some ''write failed''),
        \<lparr>events = [Req (Collection ''users''),
                    Req (BulkWrite ''users'' (replicate 50 (JsValue 7) @ [JsValue 8]))],
           dataToWrite = [], dataToWrite_proto = None, metadata = []\<rparr>)"
proof -
  let ?s = "\<lparr>events = [], dataToWrite = [(''users'', replicate 50 (JsValue (7::nat)))],
              dataToWrite_proto = None, metadata = []\<rparr>"
  have p: "pending ?s ''users'' = replicate 50 (JsValue 7)"
    by (simp add: pending_def lookup_array_def)
  have "addDocument failing_db ''users'' (JsValue 8) ?s
     = (Inr (Some ''write failed''),
        \<lparr>events = [Req (Collection ''users''),
                    Req (BulkWrite ''users'' (replicate 50 (JsValue 7) @ [JsValue 8]))],
           dataToWrite = [], dataToWrite_proto = None, metadata = []\<rparr>)"
    using addDocument_flush[where s = ?s and n = "''users''" and db = failing_db
        and d = "JsValue 8"] p
    by (simp add: failing_db_def db_ok_def lookup_array_def push_def)
  then show ?thesis
    by (simp add: createCollection_eq failing_db_def db_ok_def initial_def emit_def)
qed

text \<open>
  Claim C2, amended. \<^verbatim>\<open>createCollection\<close> issues its request, logs nothing and calls back
  with the driver's answer, error or not. \<^verbatim>\<open>addDocument\<close> calls back with no error and
  issues no request while the buffer holds at most 50 documents after the append; when
  the threshold flush gets the collection handle, it issues the handle request and the
  batched insert, logs nothing and calls back with the answer of the insert, error or
  not. \<^verbatim>\<open>drain\<close> and \<^verbatim>\<open>addIndices\<close> keep the errors of the batched inserts and of the
  \<^verbatim>\<open>createIndexes\<close> commands to themselves: whenever \<^verbatim>\<open>drain\<close> calls back it does so with
  no error, and it does call back, with no error, whenever no key of the pending map has
  an empty buffer (\<open>pending_ok\<close>) and the driver reports no error for a collection handle;
  \<^verbatim>\<open>addIndices\<close> always calls back with no error; and in the trace of either every
  batched insert and every \<^verbatim>\<open>createIndexes\<close> command that the driver answers with an
  error is directly followed by the log line of that error.
\<close>

theorem writer_error_policy:
  "createCollection db n s
       = (Inr (createCollection_cb db (events s) n),
          s\<lparr>events := events s @ [Req (CreateCollection n)]\<rparr>)
   \<and> (length (pending s n) < 50 \<longrightarrow>
        fst (addDocument db n d s) = Inr None
        \<and> events (snd (addDocument db n d s)) = events s)
   \<and> (50 \<le> length (pending s n) \<and> collection_cb db (events s) n = None \<longrightarrow>
        fst (addDocument db n d s)
          = Inr (bulkWrite_cb db (events s @ [Req (Collection n)]) n (pending s n @ [d]))
        \<and> events (snd (addDocument db n d s))
          = events s @ [Req (Collection n), Req (BulkWrite n (pending s n @ [d]))])
   \<and> (\<forall>e s'. drain db s = Some (Inr e, s') \<longrightarrow> e = None)
   \<and> (pending_ok s \<and> (\<forall>tr m. collection_cb db tr m = None) \<longrightarrow>
        (\<exists>s'. drain db s = Some (Inr None, s')))
   \<and> (\<forall>y. drain db s = Some y \<longrightarrow>
         (\<exists>new. events (snd y) = events s @ new \<and> errors_logged db (events s) new))
   \<and> fst (addIndices db indices s) = Inr None
   \<and> (\<exists>new. events (snd (addIndices db indices s)) = events s @ new
         \<and> errors_logged db (events s) new)"
proof (intro conjI allI impI)
  show "createCollection db n s
       = (Inr (createCollection_cb db (events s) n),
          s\<lparr>events := events s @ [Req (CreateCollection n)]\<rparr>)"
    by (simp add: createCollection_eq emit_def)
next
  assume "length (pending s n) < 50"
  then have a: "addDocument db n d s =
      (Inr None, case lookup_array s n of Some _ \<Rightarrow> push n d s | None \<Rightarrow> assign n [d] s)"
    by (rule addDocument_below)
  show "fst (addDocument db n d s) = Inr None" by (simp add: a)
  show "events (snd (addDocument db n d s)) = events s" by (simp add: a add_effect(1))
next
  assume "50 \<le> length (pending s n) \<and> collection_cb db (events s) n = None"
  then have len: "50 \<le> length (pending s n)" and c: "collection_cb db (events s) n = None"
    by simp_all
  show "fst (addDocument db n d s)
          = Inr (bulkWrite_cb db (events s @ [Req (Collection n)]) n (pending s n @ [d]))"
    by (simp add: addDocument_flush[OF len] c)
  show "events (snd (addDocument db n d s))
          = events s @ [Req (Collection n), Req (BulkWrite n (pending s n @ [d]))]"
    by (simp add: addDocument_flush[OF len] c)
next
  fix e s'
  assume "drain db s = Some (Inr e, s')"
  from drain_props[OF this, of UNIV] show "e = None" by simp
next
  assume "pending_ok s \<and> (\<forall>tr m. collection_cb db tr m = None)"
  then have ok: "pending_ok s" and c: "\<forall>tr m. collection_cb db tr m = None" by simp_all
  from drain_total[OF ok, of db] c show "\<exists>s'. drain db s = Some (Inr None, s')" by auto
next
  fix y
  assume "drain db s = Some y"
  then show "\<exists>new. events (snd y) = events s @ new \<and> errors_logged db (events s) new"
    by (rule drain_logged)
next
  from addIndices_props[of db indices s] show "fst (addIndices db indices s) = Inr None"
    by auto
next
  show "\<exists>new. events (snd (addIndices db indices s)) = events s @ new
         \<and> errors_logged db (events s) new"
    by (rule addIndices_logged)
qed

theorem writer_error_policy_witness:
  "pending_ok \<lparr>events = [], dataToWrite = [(''users'', [JsValue (7::nat)])],
              dataToWrite_proto = None, metadata = []\<rparr>
   \<and> (\<forall>tr m. collection_cb (failing_db :: nat document database) tr m = None)
   \<and> drain failing_db \<lparr>events = [], dataToWrite = [(''users'', [JsValue (7::nat)])],
                        dataToWrite_proto = None, metadata = []\<rparr>
     = Some (Inr None,
         \<lparr>events = [Req (Collection ''users''), Req (BulkWrite ''users'' [JsValue 7]),
                     Log ''write failed''],
            dataToWrite = [], dataToWrite_proto = None, metadata = []\<rparr>)
   \<and> errors_logged (failing_db :: nat document database) []
        [Req (Collection ''users''), Req (BulkWrite ''users'' [JsValue 7]), Log ''write failed'']
   \<and> length (pending \<lparr>events = [], dataToWrite = [(''users'', [JsValue (7::nat)])],
                       dataToWrite_proto = None, metadata = []\<rparr> ''users'') < 50
   \<and> fst (addDocument failing_db ''users'' (JsValue 8)
        \<lparr>events = [], dataToWrite = [(''users'', [JsValue (7::nat)])],
           dataToWrite_proto = None, metadata = []\<rparr>)
       = Inr None
   \<and> 50 \<le> length (pending
        \<lparr>events = [], dataToWrite = [(''users'', replicate 50 (JsValue (7::nat)))],
           dataToWrite_proto = None, metadata = []\<rparr> ''users'')
   \<and> fst (addDocument failing_db ''users'' (JsValue 8)
        \<lparr>events = [], dataToWrite = [(''users'', replicate 50 (JsValue (7::nat)))],
           dataToWrite_proto = None, metadata = []\<rparr>)
       = Inr (Some ''write failed'')"
proof -
  let ?s0 = "\<lparr>events = [], dataToWrite = [(''users'', [JsValue (7::nat)])],
               dataToWrite_proto = None, metadata = []\<rparr>"
  let ?s1 = "\<lparr>events = [Req (Collection ''users''), Req (BulkWrite ''users'' [JsValue (7::nat)])],
               dataToWrite = [], dataToWrite_proto = None,
               metadata = ([] :: (string \<times> nat document) list)\<rparr>"
  let ?s2 = "\<lparr>events = [Req (Collection ''users''), Req (BulkWrite ''users'' [JsValue (7::nat)]),
                     Log ''write failed''],
               dataToWrite = [], dataToWrite_proto = None,
               metadata = ([] :: (string \<times> nat document) list)\<rparr>"
  let ?s50 = "\<lparr>events = [], dataToWrite = [(''users'', replicate 50 (JsValue (7::nat)))],
                dataToWrite_proto = None, metadata = []\<rparr>"
  have ok: "pending_ok ?s0" by (simp add: pending_ok_def)
  have h: "\<forall>tr m. collection_cb (failing_db :: nat document database) tr m = None"
    by (simp add: failing_db_def db_ok_def)
  have k: "hd (object_keys [(''users'', [JsValue (7::nat)])]) = ''users''"
    by (simp add: object_keys_def is_array_index_def is_digit_def)
  have w: "writeAllInCollection failing_db ''users'' ?s0 = (Inr (Some ''write failed''), ?s1)"
    by (simp add: writeAllInCollection_def lookup_array_def failing_db_def db_ok_def
        db_collection_def collection_bulkWrite_def emit_def)
  have e: "error (Some ''write failed'') ?s1 = ?s2" by (simp add: error_def logger_def emit_def)
  have d: "drain failing_db ?s0 = Some (Inr None, ?s2)"
    by (simp add: drain_step k w e drain_Nil)
  have p0: "pending ?s0 ''users'' = [JsValue 7]" by (simp add: pending_def lookup_array_def)
  have p: "pending ?s50 ''users'' = replicate 50 (JsValue 7)"
    by (simp add: pending_def lookup_array_def)
  have c: "collection_cb (failing_db :: nat document database) (events ?s50) ''users'' = None"
    by (simp add: failing_db_def db_ok_def)
  have b: "bulkWrite_cb (failing_db :: nat document database) = (\<lambda>_ _ _. Some ''write failed'')"
    by (simp add: failing_db_def)
  note t0 = writer_error_policy[of failing_db "''users''" ?s0 "JsValue 8" "[]"]
  note t50 = writer_error_policy[of failing_db "''users''" ?s50 "JsValue 8" "[]"]
  from t0 ok h have "\<exists>s'. drain failing_db ?s0 = Some (Inr None, s')" by blast
  with d have d': "drain failing_db ?s0 = Some (Inr None, ?s2)" by simp
  from t0 d' have "\<exists>new. events (snd (Inr None :: fault + err option, ?s2)) = events ?s0 @ new
      \<and> errors_logged failing_db (events ?s0) new"
    by blast
  then have l: "errors_logged (failing_db :: nat document database) []
        [Req (Collection ''users''), Req (BulkWrite ''users'' [JsValue 7]), Log ''write failed'']"
    by simp
  from t0 p0 have a0: "fst (addDocument failing_db ''users'' (JsValue 8) ?s0) = Inr None"
    by simp
  from t50 p c have "fst (addDocument failing_db ''users'' (JsValue 8) ?s50)
      = Inr (Some ''write failed'')"
    by (simp add: b)
  with ok h d' l p0 a0 p show ?thesis by simp
qed

section \<open>C3: indexes are replayed only after the pending map has been drained\<close>

subsection \<open>The order of the requests\<close>

text \<open>
  The handlers \<^verbatim>\<open>onDirectory\<close> and \<^verbatim>\<open>onFile\<close> issue no \<^verbatim>\<open>createIndexes\<close> request. When
  \<^verbatim>\<open>finish\<close> returns with metadata replay enabled, \<^verbatim>\<open>drain\<close> has returned first, from the
  same state, without issuing a \<^verbatim>\<open>createIndexes\<close> request; either \<^verbatim>\<open>drain\<close> threw and
  \<^verbatim>\<open>finish\<close> ends there, or \<^verbatim>\<open>drain\<close> called back with no error and no key left in the
  pending map, and only then \<^verbatim>\<open>addIndices\<close> ran over the accumulated metadata records,
  issuing nothing but \<^verbatim>\<open>createIndexes\<close> requests. A whole run of \<^verbatim>\<open>go\<close> issues no
  \<^verbatim>\<open>createIndexes\<close> request before it calls \<^verbatim>\<open>finish\<close> and none after \<^verbatim>\<open>finish\<close> has
  returned.
\<close>

lemma index_replay_after_drain_of_keys:
  "issues_only (\<lambda>r. \<not> index_request r) s (snd (onDirectory env directoryName s))
   \<and> issues_only (\<lambda>r. \<not> index_request r) s (snd (onFile env parser supportMetadata name stream s))
   \<and> (\<forall>r s'. finish env True s = Some (r, s') \<longrightarrow>
         (\<exists>r1 s1. drain (env_db env) s = Some (r1, s1)
            \<and> issues_only (\<lambda>r. \<not> index_request r) s s1
            \<and> ((\<exists>f. r1 = Inl f \<and> r = Inl f \<and> s' = s1)
               \<or> (r1 = Inr None \<and> dataToWrite s1 = [] \<and> r = Inr None
                  \<and> s' = (snd (addIndices (env_db env) (metadata s) s1))\<lparr>metadata := []\<rparr>
                  \<and> issues_only index_request s1 s'))))
   \<and> (\<forall>r s'. go env my parser ds s = Some (r, s') \<longrightarrow>
         issues_only (\<lambda>r. \<not> index_request r) s s'
         \<or> (\<exists>s0 r1 s1. issues_only (\<lambda>r. \<not> index_request r) s s0
               \<and> finish env (my_metadata my) s0 = Some (r1, s1)
               \<and> issues_only (\<lambda>r. \<not> index_request r) s1 s'))"
proof (intro conjI allI impI)
  obtain r1 s1 where d: "onDirectory env directoryName s = (r1, s1)" by force
  from onDirectory_within[OF d, of UNIV] d
  show "issues_only (\<lambda>r. \<not> index_request r) s (snd (onDirectory env directoryName s))"
    by (simp add: steps_within_no_index)
next
  obtain r1 s1 where f: "onFile env parser supportMetadata name stream s = (r1, s1)" by force
  from onFile_within[OF f, of UNIV] f
  show "issues_only (\<lambda>r. \<not> index_request r) s (snd (onFile env parser supportMetadata name stream s))"
    by (simp add: steps_within_no_index)
next
  fix r s'
  assume fin: "finish env True s = Some (r, s')"
  then obtain r1 s1 where d: "drain (env_db env) s = Some (r1, s1)"
    by (cases "drain (env_db env) s") (auto simp add: finish_diverges)
  from drain_props[OF d, of UNIV] have "steps_within UNIV s s1"
    by (simp add: steps_within_def)
  then have pre: "issues_only (\<lambda>r. \<not> index_request r) s s1" by (rule steps_within_no_index)
  have "(\<exists>f. r1 = Inl f \<and> r = Inl f \<and> s' = s1)
      \<or> (r1 = Inr None \<and> dataToWrite s1 = [] \<and> r = Inr None
          \<and> s' = (snd (addIndices (env_db env) (metadata s) s1))\<lparr>metadata := []\<rparr>
          \<and> issues_only index_request s1 s')"
  proof (cases r1)
    case (Inl f)
    with d fin show ?thesis by (auto simp add: finish_thrown)
  next
    case (Inr e)
    from drain_props[OF d, of UNIV] Inr have e: "e = None" "dataToWrite s1 = []" by simp_all
    from finish_drained[OF d[unfolded Inr], of True] fin
    have r: "r = Inr None" and s': "s' = (snd (addIndices (env_db env) (metadata s) s1))\<lparr>metadata := []\<rparr>"
      by simp_all
    have "issues_only index_request s1 s'"
      using addIndices_issues[of s1 "env_db env" "metadata s"]
      by (simp add: s' issues_only_def)
    with Inr e r s' show ?thesis by simp
  qed
  with d pre
  show "\<exists>r1 s1. drain (env_db env) s = Some (r1, s1)
            \<and> issues_only (\<lambda>r. \<not> index_request r) s s1
            \<and> ((\<exists>f. r1 = Inl f \<and> r = Inl f \<and> s' = s1)
               \<or> (r1 = Inr None \<and> dataToWrite s1 = [] \<and> r = Inr None
                  \<and> s' = (snd (addIndices (env_db env) (metadata s) s1))\<lparr>metadata := []\<rparr>
                  \<and> issues_only index_request s1 s'))"
    by blast
next
  fix r s'
  assume "go env my parser ds s = Some (r, s')"
  then show "issues_only (\<lambda>r. \<not> index_request r) s s'
         \<or> (\<exists>s0 r1 s1. issues_only (\<lambda>r. \<not> index_request r) s s0
               \<and> finish env (my_metadata my) s0 = Some (r1, s1)
               \<and> issues_only (\<lambda>r. \<not> index_request r) s1 s')"
    by (rule go_reaches_finish)
qed

subsection \<open>The claim\<close>

text \<open>
  Claim C3 says that no \<^verbatim>\<open>createIndexes\<close> request is issued before the pending buffer
  of every collection has been drained to empty. The program does not do this for the
  collection named \<^verbatim>\<open>__proto__\<close>: its documents are buffered in the prototype of the
  pending map, \<^verbatim>\<open>drain\<close> flushes the keys of the map only and calls back, and \<^verbatim>\<open>finish\<close>
  goes on to \<^verbatim>\<open>addIndices\<close>. In the run on the dump \<^verbatim>\<open>/proto/mydb\<close>, which holds one
  document of the collection \<^verbatim>\<open>__proto__\<close> and its index file, with metadata replay
  enabled and a driver that answers every request without an error, the
  \<^verbatim>\<open>createIndexes\<close> command is issued and the run completes while the document is still
  pending; no batched insert is ever issued for it.
\<close>

theorem index_replay_with_proto_buffer_pending:
  "wrapper example_env (example_my\<lparr>my_root := ''/proto/'', my_metadata := True\<rparr>) initial =
     Some (Inr None,
       \<lparr>events =
          [Req (Connect ''mongodb://localhost/test''), Log ''db open'',
           Req (CreateCollection ''__proto__''),
           Req (Command ''__proto__'' (JsValue 31)),
           Log ''db close'', Req Close, Log ''restore stop'',
           Log ''callback run'', Callback None],
        dataToWrite = [], dataToWrite_proto = Some [JsValue 0], metadata = []\<rparr>)
   \<and> pending
       \<lparr>events =
          [Req (Connect ''mongodb://localhost/test''), Log ''db open'',
           Req (CreateCollection ''__proto__''),
           Req (Command ''__proto__'' (JsValue 31)),
           Log ''db close'', Req Close, Log ''restore stop'',
           Log ''callback run'', Callback None],
        dataToWrite = [], dataToWrite_proto = Some [JsValue (0::nat)], metadata = []\<rparr>
       ''__proto__''
     = [JsValue 0]"
proof -
  have run: "wrapper example_env (example_my\<lparr>my_root := ''/proto/'', my_metadata := True\<rparr>) initial =
     Some (Inr None,
       \<lparr>events =
          [Req (Connect ''mongodb://localhost/test''), Log ''db open'',
           Req (CreateCollection ''__proto__''),
           Req (Command ''__proto__'' (JsValue 31)),
           Log ''db close'', Req Close, Log ''restore stop'',
           Log ''callback run'', Callback None],
        dataToWrite = [], dataToWrite_proto = Some [JsValue 0], metadata = []\<rparr>)"
    by (simp add: wrapper_def wrapper_parser_def example_my_def toLowerCase_BSON go_def
        db_connect_def importDataToDb_def datasource_begin_def callback_def initial_def emit_def
        logger_def db_close_def fileSystem_begin_def example_env_def example_readdir_def Let_def
        addCollections.simps addFiles.simps onDirectory_def onFile_def directoryArrays_def
        collectionNameForDirectory_def collectionNameForFiles_def metadataFilenameRegexp_def
        replace_backslashes_def before_last_slash_def after_last_slash_def
        createCollection_def db_createCollection_def db_ok_def error_def parse_def
        bsonParser_def jsonParser_def addDocument_def lookup_array_def assign_def finish_def
        drain_Nil addIndices.simps db_command_def)
  have "pending
       \<lparr>events =
          [Req (Connect ''mongodb://localhost/test''), Log ''db open'',
           Req (CreateCollection ''__proto__''),
           Req (Command ''__proto__'' (JsValue 31)),
           Log ''db close'', Req Close, Log ''restore stop'',
           Log ''callback run'', Callback None],
        dataToWrite = [], dataToWrite_proto = Some [JsValue (0::nat)], metadata = []\<rparr>
       ''__proto__''
     = [JsValue 0]"
    by (simp add: pending_def lookup_array_def)
  with run show ?thesis by simp
qed

section \<open>C4: a dump root without exactly one entry\<close>

text \<open>
  Claim C4, as stated, fails: \<^verbatim>\<open>go\<close> opens the connection before it calls the data
  source's \<^verbatim>\<open>begin\<close>, and only \<^verbatim>\<open>begin\<close> looks at the dump root. A run on a dump root
  with two entries issues the connect request, closes the connection again, and hands
  the error to the completion callback.
\<close>

theorem dump_root_checked_after_connecting_counterexample:
  "wrapper example_env (example_my\<lparr>my_root := ''/two/''\<rparr>) initial
     = Some (Inr (Some ''Found multiple directories and only support one: [object JSON]''),
         \<lparr>events =
            [Req (Connect ''mongodb://localhost/test''), Log ''db open'', Log ''db close'',
             Req Close, Log ''restore stop'', Log ''callback run'',
             Callback (Some ''Found multiple directories and only support one: [object JSON]'')],
          dataToWrite = [], dataToWrite_proto = None, metadata = []\<rparr>)"
proof -
  have low: "toLowerCase ''BSON'' = ''bson''" by code_simp
  have r: "readdirSync example_env ''/two/'' = Some [''mydb'', ''other'']"
    by (simp add: example_env_def example_readdir_def)
  have b: "\<And>s. fileSystem_begin example_env (bsonParser example_env) False ''/two/'' s
      = Some (Inr (Some ''Found multiple directories and only support one: [object JSON]''), s)"
    by (rule fileSystem_begin_wrong_dirs[OF r]) simp
  have c: "connect_cb (env_db example_env) = (\<lambda>_ _. None)"
    by (simp add: example_env_def db_ok_def)
  show ?thesis
    by (simp add: wrapper_def wrapper_parser_def example_my_def low go_def db_connect_def c
        importDataToDb_def datasource_begin_def b callback_def initial_def emit_def logger_def
        db_close_def)
qed

text \<open>
  Claim C4, amended. When the dump root of a file-system run does not hold exactly one
  entry, the data source's \<^verbatim>\<open>begin\<close> reports the error \<^verbatim>\<open>Found multiple directories\<close> and
  issues no request and changes nothing itself. The run of \<^verbatim>\<open>go\<close> comes to an end; it
  has first issued the connect request, and every request after it is one of the
  session's own (collection handles and drops of the drop step, closing): no collection
  is created, no document is inserted and no index is replayed. When the connection is
  established and no drop is configured, the connection is closed and the error is
  handed to the completion callback.
\<close>

theorem dump_root_error_after_connecting:
  assumes "readdirSync env rootDir = Some dirs" and "length dirs \<noteq> 1"
  shows "fileSystem_begin env parser supportMetadata rootDir s
           = Some (Inr (Some ''Found multiple directories and only support one: [object JSON]''), s)
       \<and> (\<exists>r s' rest. go env my parser (fileSystemDataSource rootDir) s = Some (r, s')
             \<and> events s' = events s @ Req (Connect (my_uri my)) # rest
             \<and> list_all session_request (requests rest)
             \<and> dataToWrite s' = dataToWrite s \<and> metadata s' = metadata s)
       \<and> (connect_cb (env_db env) (events s) (my_uri my) = None \<and> \<not> my_drop my
             \<and> my_dropCollections my = DropCollections_null \<longrightarrow>
           go env my parser (fileSystemDataSource rootDir) s
             = Some (Inr (Some ''Found multiple directories and only support one: [object JSON]''),
                 callback my
                   (Some ''Found multiple directories and only support one: [object JSON]'')
                   (db_close (logger ''db close''
                      (logger ''db open'' (emit (Req (Connect (my_uri my))) s))))))"
proof (intro conjI impI)
  let ?msg = "''Found multiple directories and only support one: [object JSON]''"
  have b: "\<And>s M. fileSystem_begin env parser M rootDir s = Some (Inr (Some ?msg), s)"
    by (rule fileSystem_begin_wrong_dirs[OF assms])
  show "fileSystem_begin env parser supportMetadata rootDir s = Some (Inr (Some ?msg), s)"
    by (rule b)
  have imp: "\<And>err s1. \<exists>e. importDataToDb env my parser (fileSystemDataSource rootDir) err s1
      = Some (Inr (Some e), callback my (Some e) (db_close (logger ''db close'' s1)))"
    by (case_tac err) (simp_all add: importDataToDb_def datasource_begin_def b)
  let ?s0 = "emit (Req (Connect (my_uri my))) s"
  have "\<exists>r s'. go env my parser (fileSystemDataSource rootDir) s = Some (r, s')
      \<and> issues_only session_request ?s0 s'
      \<and> dataToWrite s' = dataToWrite s \<and> metadata s' = metadata s"
  proof -
    obtain y where y: "go env my parser (fileSystemDataSource rootDir) s = y" by simp
    from y show ?thesis
    proof (cases rule: go_cases)
      case (stopped r1 s1)
      with y show ?thesis by simp
    next
      case (import err s1)
      from imp[of err s1] obtain e where
        i: "importDataToDb env my parser (fileSystemDataSource rootDir) err s1
          = Some (Inr (Some e), callback my (Some e) (db_close (logger ''db close'' s1)))"
        by blast
      have cl: "issues_only session_request s1 (callback my (Some e) (db_close (logger ''db close'' s1)))"
        by (rule closing_effect) simp
      have "dataToWrite (callback my (Some e) (db_close (logger ''db close'' s1))) = dataToWrite s"
        and "metadata (callback my (Some e) (db_close (logger ''db close'' s1))) = metadata s"
        using callback_effect[of session_request "db_close (logger ''db close'' s1)" my "Some e"]
          import(3,4) by simp_all
      with y import(1) i issues_only_trans[OF import(5) cl] show ?thesis by simp
    qed
  qed
  then show "\<exists>r s' rest. go env my parser (fileSystemDataSource rootDir) s = Some (r, s')
             \<and> events s' = events s @ Req (Connect (my_uri my)) # rest
             \<and> list_all session_request (requests rest)
             \<and> dataToWrite s' = dataToWrite s \<and> metadata s' = metadata s"
    by (auto simp add: issues_only_def)
  assume "connect_cb (env_db env) (events s) (my_uri my) = None \<and> \<not> my_drop my
             \<and> my_dropCollections my = DropCollections_null"
  then show "go env my parser (fileSystemDataSource rootDir) s
             = Some (Inr (Some ?msg),
                 callback my (Some ?msg)
                   (db_close (logger ''db close''
                      (logger ''db open'' (emit (Req (Connect (my_uri my))) s)))))"
    by (simp add: go_def db_connect_def importDataToDb_def datasource_begin_def b)
qed

theorem dump_root_error_after_connecting_witness:
  "readdirSync example_env ''/two/'' = Some [''mydb'', ''other'']
   \<and> length [''mydb'', ''other''] \<noteq> 1
   \<and> fileSystem_begin example_env None False ''/two/'' initial
       = Some (Inr (Some ''Found multiple directories and only support one: [object JSON]''), initial)
   \<and> (\<exists>r s' rest. go example_env example_my None (fileSystemDataSource ''/two/'') initial
           = Some (r, s')
         \<and> events s' = events (initial :: nat document state) @ Req (Connect (my_uri example_my)) # rest
         \<and> list_all session_request (requests rest))"
proof -
  have r: "readdirSync example_env ''/two/'' = Some [''mydb'', ''other'']"
    by (simp add: example_env_def example_readdir_def)
  have l: "length [''mydb'', ''other''] \<noteq> 1" by simp
  from dump_root_error_after_connecting[OF r l, of None False initial example_my] r
  show ?thesis by auto
qed

section \<open>C5: a failed listing in the drop-all mode\<close>

text \<open>
  Claim C5. In the mode that drops all existing collections (\<^verbatim>\<open>dropCollections\<close> truthy
  and not an array, no whole-database drop), when the connection is established and the
  driver answers the listing of the collections with an error, the run ends there: the
  error is logged and reading the length of the list that was not handed over throws.
  The trace ends with the listing request and the log line; no collection handle is
  asked for, no drop is issued, nothing is imported, and the completion callback is not
  invoked.
\<close>

theorem listing_failure_stops_before_drops:
  assumes "connect_cb (env_db env) (events s) (my_uri my) = None"
    and "\<not> my_drop my"
    and "my_dropCollections my = DropCollections_other"
    and "collections_cb (env_db env)
           (events s @ [Req (Connect (my_uri my)), Log ''db open'', Log ''drop collections''])
         = Inl e"
  shows "go env my parser datasource s
           = Some (Inl (TypeError ''Cannot read property length of null''),
               s\<lparr>events := events s @
                   [Req (Connect (my_uri my)), Log ''db open'', Log ''drop collections'',
                    Req Collections, Log e]\<rparr>)"
  using assms
  by (simp add: go_def db_connect_def db_collections_def emit_def logger_def error_def)

theorem listing_failure_stops_before_drops_witness:
  "connect_cb (env_db listing_fails_env) (events (initial :: nat document state)) ''mongodb://localhost/test'' = None
   \<and> go listing_fails_env (example_my\<lparr>my_dropCollections := DropCollections_other\<rparr>) None
        (fileSystemDataSource ''/dump/'') initial
       = Some (Inl (TypeError ''Cannot read property length of null''),
           \<lparr>events = [Req (Connect ''mongodb://localhost/test''), Log ''db open'',
                       Log ''drop collections'', Req Collections, Log ''listing failed''],
              dataToWrite = [], dataToWrite_proto = None, metadata = []\<rparr>)"
proof -
  let ?my = "example_my\<lparr>my_dropCollections := DropCollections_other\<rparr>"
  have u: "my_uri ?my = ''mongodb://localhost/test''" by (simp add: example_my_def)
  have a: "connect_cb (env_db listing_fails_env) (events (initial :: nat document state)) (my_uri ?my) = None"
    by (simp add: listing_fails_env_def db_ok_def)
  have b: "\<not> my_drop ?my" by (simp add: example_my_def)
  have c: "my_dropCollections ?my = DropCollections_other" by simp
  have d: "collections_cb (env_db listing_fails_env)
           (events (initial :: nat document state) @ [Req (Connect (my_uri ?my)), Log ''db open'', Log ''drop collections''])
         = Inl ''listing failed''"
    by (simp add: listing_fails_env_def)
  from listing_failure_stops_before_drops[OF a b c d, of None "fileSystemDataSource ''/dump/''"] a
  show ?thesis by (simp add: u initial_def)
qed

section \<open>C6: addIndices replays the records last in, first out\<close>

text \<open>
  Claim C6. \<^verbatim>\<open>addIndices\<close> consumes the records from the end of the list: the trace is
  only extended, the requests it issues are exactly one \<^verbatim>\<open>createIndexes\<close> command per
  record, naming the record's collection and carrying its index specifications, in the
  reverse of the order of the list, and its callback is then invoked with no error.
  With an empty list it calls back at once and changes nothing.
\<close>

theorem addIndices_last_in_first_out:
  "(case addIndices db indices s of
      (r, s') \<Rightarrow>
        r = Inr None
        \<and> take (length (events s)) (events s') = events s
        \<and> requests (drop (length (events s)) (events s'))
            = map (\<lambda>(collectionName, document). Command collectionName document) (rev indices)
        \<and> dataToWrite s' = dataToWrite s)
   \<and> addIndices db [] s = (Inr None, s)"
proof -
  from addIndices_props[of db indices s] obtain new where
    "addIndices db indices s = (Inr None, s\<lparr>events := events s @ new\<rparr>)"
    "requests new = map (\<lambda>(n, d). Command n d) (rev indices)"
    by blast
  then show ?thesis by simp
qed

section \<open>C7: with metadata replay disabled nothing under .metadata is read and no index is replayed\<close>

text \<open>
  Claim C7. In a run with metadata replay disabled, \<^verbatim>\<open>onFile\<close> acknowledges a file whose
  parent segment is \<^verbatim>\<open>.metadata\<close> with no error and leaves the state as it is, whatever
  the content of the stream and whatever the decoders are (so the content is neither
  read nor decoded); and the whole run, started by \<^verbatim>\<open>wrapper\<close> from the initial state,
  comes to an end with a trace that holds no \<^verbatim>\<open>createIndexes\<close> request.
\<close>

theorem metadata_disabled_no_read_no_index:
  assumes "\<not> my_metadata my"
  shows "(collectionNameForFiles (replace_backslashes name) = Some ''.metadata'' \<longrightarrow>
            onFile env parser (my_metadata my) name stream s = (Inr None, s))
       \<and> (\<exists>r s'. wrapper env my initial = Some (r, s')
             \<and> list_all (\<lambda>r. \<not> index_request r) (requests (events s')))"
proof (intro conjI impI)
  assume "collectionNameForFiles (replace_backslashes name) = Some ''.metadata''"
  then show "onFile env parser (my_metadata my) name stream s = (Inr None, s)"
    using assms by (simp add: onFile_skipped)
next
  have "pending_ok (initial :: 'a document state)" by (simp add: pending_ok_def initial_def)
  from wrapper_total[OF this, of env my] obtain r s' where
    w: "wrapper env my initial = Some (r, s')" by auto
  from wrapper_no_index[OF w assms]
  have "list_all (\<lambda>r. \<not> index_request r) (requests (events s'))"
    by (auto simp add: issues_only_def initial_def)
  with w show "\<exists>r s'. wrapper env my initial = Some (r, s')
             \<and> list_all (\<lambda>r. \<not> index_request r) (requests (events s'))"
    by blast
qed

theorem metadata_disabled_no_read_no_index_witness:
  "\<not> my_metadata example_my
   \<and> collectionNameForFiles (replace_backslashes ''/dump/mydb/.metadata/users'') = Some ''.metadata''
   \<and> onFile example_env None (my_metadata example_my) ''/dump/mydb/.metadata/users'' ''{'' initial
       = (Inr None, initial)
   \<and> (\<exists>r s'. wrapper example_env example_my initial = Some (r, s')
         \<and> list_all (\<lambda>r. \<not> index_request r) (requests (events s')))"
proof -
  have h: "\<not> my_metadata example_my" by (simp add: example_my_def)
  have n: "collectionNameForFiles (replace_backslashes ''/dump/mydb/.metadata/users'') = Some ''.metadata''"
    by (simp add: collectionNameForFiles_def replace_backslashes_def before_last_slash_def
        after_last_slash_def)
  from metadata_disabled_no_read_no_index[OF h, of "''/dump/mydb/.metadata/users''"
      example_env None "''{''" initial] h n
  show ?thesis by simp
qed

section \<open>C8: the reserved name .metadata is never a collection\<close>

text \<open>
  Claim C8. A directory entry whose name is \<^verbatim>\<open>.metadata\<close> is acknowledged and changes
  nothing. A file entry whose parent segment is \<^verbatim>\<open>.metadata\<close> issues no request and
  leaves the pending map as it is: the state is unchanged, or one record under the
  file's name has been appended to the metadata records. For every sequence of entries
  that the archive source dispatches, and for the directories and files that the file
  system source dispatches, started with no key \<^verbatim>\<open>.metadata\<close> in the pending map: every
  request issued is a create-collection, collection-handle or batched-insert request
  for a name other than \<^verbatim>\<open>.metadata\<close>, and \<^verbatim>\<open>.metadata\<close> is still no key of the pending
  map afterwards. From such a state \<^verbatim>\<open>finish\<close> issues nothing but requests of that kind
  and \<^verbatim>\<open>createIndexes\<close> commands.
\<close>

theorem reserved_name_never_a_collection:
  "(collectionNameForDirectory (replace_backslashes directoryName) = Some ''.metadata'' \<longrightarrow>
      onDirectory env directoryName s = (Inr None, s))
   \<and> (collectionNameForFiles (replace_backslashes name) = Some ''.metadata'' \<longrightarrow>
        (case onFile env parser supportMetadata name stream s of
           (r, s') \<Rightarrow>
             s' = s
             \<or> (\<exists>document. r = Inr None
                   \<and> s' = s\<lparr>metadata := metadata s
                              @ [(after_last_slash (replace_backslashes name), document)]\<rparr>)))
   \<and> (''.metadata'' \<notin> keys s \<longrightarrow>
        (case extract_entries env parser supportMetadata entries s of
           (r, s') \<Rightarrow>
             issues_only (writer_request (- {''.metadata''})) s s' \<and> ''.metadata'' \<notin> keys s')
        \<and> (case addCollections env collections s of
             (r, s') \<Rightarrow>
               issues_only (writer_request (- {''.metadata''})) s s' \<and> ''.metadata'' \<notin> keys s')
        \<and> (case addFiles env parser supportMetadata files s of
             (r, s') \<Rightarrow>
               issues_only (writer_request (- {''.metadata''})) s s' \<and> ''.metadata'' \<notin> keys s')
        \<and> (\<forall>r s'. finish env supportMetadata s = Some (r, s') \<longrightarrow>
               issues_only (\<lambda>r. writer_request (- {''.metadata''}) r \<or> index_request r) s s'))"
proof (intro conjI impI allI)
  assume "collectionNameForDirectory (replace_backslashes directoryName) = Some ''.metadata''"
  then show "onDirectory env directoryName s = (Inr None, s)" by (rule onDirectory_metadata)
next
  assume n: "collectionNameForFiles (replace_backslashes name) = Some ''.metadata''"
  show "case onFile env parser supportMetadata name stream s of
           (r, s') \<Rightarrow>
             s' = s
             \<or> (\<exists>document. r = Inr None
                   \<and> s' = s\<lparr>metadata := metadata s
                              @ [(after_last_slash (replace_backslashes name), document)]\<rparr>)"
    by (cases supportMetadata)
      (auto simp add: onFile_skipped[OF n] onFile_metadata[OF n] split: option.splits)
next
  assume k: "''.metadata'' \<notin> keys s"
  then have K: "keys s \<subseteq> - {''.metadata''}" by auto
  obtain r s' where e: "extract_entries env parser supportMetadata entries s = (r, s')" by force
  from extract_entries_within[OF e _ K] e
  show "case extract_entries env parser supportMetadata entries s of
           (r, s') \<Rightarrow>
             issues_only (writer_request (- {''.metadata''})) s s' \<and> ''.metadata'' \<notin> keys s'"
    by (auto simp add: steps_within_def)
  obtain r2 s2 where c: "addCollections env collections s = (r2, s2)" by force
  from addCollections_within[OF c _ K] c
  show "case addCollections env collections s of
             (r, s') \<Rightarrow>
               issues_only (writer_request (- {''.metadata''})) s s' \<and> ''.metadata'' \<notin> keys s'"
    by (auto simp add: steps_within_def)
  obtain r3 s3 where f: "addFiles env parser supportMetadata files s = (r3, s3)" by force
  from addFiles_within[OF f _ K] f
  show "case addFiles env parser supportMetadata files s of
             (r, s') \<Rightarrow>
               issues_only (writer_request (- {''.metadata''})) s s' \<and> ''.metadata'' \<notin> keys s'"
    by (auto simp add: steps_within_def)
  fix r4 s4
  assume "finish env supportMetadata s = Some (r4, s4)"
  then show "issues_only (\<lambda>r. writer_request (- {''.metadata''}) r \<or> index_request r) s s4"
    using K by (rule finish_within)
qed

theorem reserved_name_never_a_collection_witness:
  "collectionNameForDirectory (replace_backslashes ''mydb/.metadata/'') = Some ''.metadata''
   \<and> onDirectory example_env ''mydb/.metadata/'' initial = (Inr None, initial)
   \<and> collectionNameForFiles (replace_backslashes ''mydb/.metadata/users'') = Some ''.metadata''
   \<and> ''.metadata'' \<notin> keys (initial :: nat document state)
   \<and> (case extract_entries example_env (Some (JSON_parse example_env)) True
            [\<lparr>header_type = ''directory'', header_name = ''mydb/.metadata/'', entry_stream = []\<rparr>,
             \<lparr>header_type = ''file'', header_name = ''mydb/.metadata/users'', entry_stream = ''[]''\<rparr>,
             \<lparr>header_type = ''file'', header_name = ''mydb/users/doc1'', entry_stream = ''{}''\<rparr>]
            initial of
         (r, s') \<Rightarrow>
           issues_only (writer_request (- {''.metadata''})) initial s' \<and> ''.metadata'' \<notin> keys s')"
proof -
  have d: "collectionNameForDirectory (replace_backslashes ''mydb/.metadata/'') = Some ''.metadata''"
    by (simp add: collectionNameForDirectory_def replace_backslashes_def after_last_slash_def)
  have f: "collectionNameForFiles (replace_backslashes ''mydb/.metadata/users'') = Some ''.metadata''"
    by (simp add: collectionNameForFiles_def replace_backslashes_def before_last_slash_def
        after_last_slash_def)
  have k: "''.metadata'' \<notin> keys (initial :: nat document state)" by (simp add: keys_def initial_def)
  from reserved_name_never_a_collection[of "''mydb/.metadata/''" example_env initial
      "''mydb/.metadata/users''" "Some (JSON_parse example_env)" True "''[]''"
      "[\<lparr>header_type = ''directory'', header_name = ''mydb/.metadata/'', entry_stream = []\<rparr>,
        \<lparr>header_type = ''file'', header_name = ''mydb/.metadata/users'', entry_stream = ''[]''\<rparr>,
        \<lparr>header_type = ''file'', header_name = ''mydb/users/doc1'', entry_stream = ''{}''\<rparr>]"]
    d f k
  show ?thesis by simp
qed

section \<open>C9: no key of the pending map has an empty buffer, and drain terminates\<close>

subsection \<open>The keys of the pending map\<close>

text \<open>
  The pending map of a fresh writer satisfies \<open>pending_ok\<close> (every key has a non-empty
  buffer), and \<^verbatim>\<open>addDocument\<close>, \<^verbatim>\<open>writeAllInCollection\<close> and \<^verbatim>\<open>drain\<close> keep it so; after
  \<^verbatim>\<open>addDocument\<close> the name is a key with at least one document or it is no key. Under
  the invariant, one step of \<^verbatim>\<open>drain\<close> on a map with keys either throws (the driver
  handed over no collection handle) or removes the chosen key, so that the map gets
  strictly shorter, and goes on; hence \<^verbatim>\<open>drain\<close> returns, with no error and no key left
  when nothing throws, and it always does so when the driver hands over every handle.
  On a map without keys \<^verbatim>\<open>drain\<close> acknowledges at once.
\<close>

lemma pending_map_invariant:
  fixes db :: "'a document database"
  shows "pending_ok (initial :: 'a document state)
    \<and> (pending_ok s \<longrightarrow>
          pending_ok (snd (addDocument db n d s))
          \<and> (n \<notin> keys (snd (addDocument db n d s)) \<or> pending (snd (addDocument db n d s)) n \<noteq> [])
          \<and> pending_ok (snd (writeAllInCollection db n s)))
    \<and> (pending_ok s \<and> dataToWrite s \<noteq> [] \<longrightarrow>
          (case writeAllInCollection db (hd (object_keys (dataToWrite s))) s of
             (Inl f, s1) \<Rightarrow> drain db s = Some (Inl f, s1)
           | (Inr err, s1) \<Rightarrow>
               hd (object_keys (dataToWrite s)) \<notin> keys s1
               \<and> keys s1 \<subset> keys s
               \<and> length (dataToWrite s1) < length (dataToWrite s)
               \<and> drain db s = drain db (error err s1)))
    \<and> (pending_ok s \<longrightarrow>
          (\<exists>r s'. drain db s = Some (r, s') \<and> pending_ok s'
             \<and> (\<forall>e. r = Inr e \<longrightarrow> e = None \<and> dataToWrite s' = [])
             \<and> ((\<forall>tr m. collection_cb db tr m = None) \<longrightarrow> r = Inr None)))
    \<and> (dataToWrite s = [] \<longrightarrow> drain db s = Some (Inr None, s))"
proof (intro conjI impI)
  show "pending_ok (initial :: 'a document state)" by (simp add: pending_ok_def initial_def)
next
  assume ok: "pending_ok s"
  obtain r s' where a: "addDocument db n d s = (r, s')" by force
  from addDocument_effect(3)[OF a ok] a show "pending_ok (snd (addDocument db n d s))" by simp
  have "pending_ok s'" using addDocument_effect(3)[OF a ok] .
  then have "\<forall>(k, docs) \<in> set (dataToWrite s'). docs \<noteq> []" by (simp add: pending_ok_def)
  moreover have "n \<in> keys s' \<Longrightarrow> (n, pending s' n) \<in> set (dataToWrite s')"
    using lookup_array_key[of n s'] by (auto simp add: pending_def)
  ultimately have "n \<notin> keys s' \<or> pending s' n \<noteq> []" by auto
  with a show "n \<notin> keys (snd (addDocument db n d s)) \<or> pending (snd (addDocument db n d s)) n \<noteq> []"
    by simp
  obtain r2 s2 where w: "writeAllInCollection db n s = (r2, s2)" by force
  from writeAll_pending_ok[OF w ok] w show "pending_ok (snd (writeAllInCollection db n s))" by simp
next
  assume "pending_ok s \<and> dataToWrite s \<noteq> []"
  then have ok: "pending_ok s" and ne: "dataToWrite s \<noteq> []" by simp_all
  let ?n = "hd (object_keys (dataToWrite s))"
  have n: "?n \<in> fst ` set (dataToWrite s)" using ne by (rule hd_object_keys)
  then obtain docs where m: "map_of (dataToWrite s) ?n = Some docs"
    by (cases "map_of (dataToWrite s) ?n") (auto simp add: map_of_eq_None_iff)
  then have "(?n, docs) \<in> set (dataToWrite s)" by (rule map_of_SomeD)
  with ok have docs: "docs \<noteq> []" by (auto simp add: pending_ok_def)
  have len: "length (AList.delete ?n (dataToWrite s)) < length (dataToWrite s)"
    using n by (auto simp add: AList.delete_eq intro!: length_filter_less)
  have sub: "fst ` set (AList.delete ?n (dataToWrite s)) \<subset> fst ` set (dataToWrite s)"
    using n dom_delete_subset[of ?n "dataToWrite s"] delete_notin_dom[of ?n "dataToWrite s"]
    by blast
  show "case writeAllInCollection db ?n s of
             (Inl f, s1) \<Rightarrow> drain db s = Some (Inl f, s1)
           | (Inr err, s1) \<Rightarrow>
               ?n \<notin> keys s1 \<and> keys s1 \<subset> keys s
               \<and> length (dataToWrite s1) < length (dataToWrite s)
               \<and> drain db s = drain db (error err s1)"
    using len sub ne
    by (cases "collection_cb db (events s) ?n")
      (simp_all add: writeAll_flush[OF lookup_array_own[OF m] docs] drain_step keys_def
        delete_notin_dom)
next
  assume ok: "pending_ok s"
  from drain_total[OF ok, of db] obtain r s' where
    d: "drain db s = Some (r, s')" "(\<forall>tr n. collection_cb db tr n = None) \<longrightarrow> r = Inr None"
    by blast
  from drain_props[OF d(1), of UNIV] ok d
  show "\<exists>r s'. drain db s = Some (r, s') \<and> pending_ok s'
             \<and> (\<forall>e. r = Inr e \<longrightarrow> e = None \<and> dataToWrite s' = [])
             \<and> ((\<forall>tr m. collection_cb db tr m = None) \<longrightarrow> r = Inr None)"
    by simp
next
  assume "dataToWrite s = []"
  then show "drain db s = Some (Inr None, s)" by (rule drain_Nil)
qed

subsection \<open>The claim\<close>


section \<open>C10: index files are decoded as JSON whatever the configured parser\<close>

text \<open>
  Claim C10. Let \<open>parser\<close> be the parser that \<^verbatim>\<open>wrapper\<close> selects from the options: the
  caller's function, the BSON decoder for the tag \<^verbatim>\<open>bson\<close>, the JSON decoder for the tag
  \<^verbatim>\<open>json\<close>. With metadata replay enabled, a file whose parent segment is \<^verbatim>\<open>.metadata\<close>
  is decoded by \<^verbatim>\<open>JSON.parse\<close> and appended to the metadata records under the file's
  name; the result does not depend on \<open>parser\<close>. A file under any other directory is
  decoded by \<open>parser\<close> and handed to \<^verbatim>\<open>addDocument\<close>.
\<close>

theorem metadata_decoded_as_json:
  assumes "wrapper_parser env my = Inr parser"
  shows "parser =
           (case my_parser my of
              Parser_function f \<Rightarrow> f
            | Parser_string str \<Rightarrow>
                if toLowerCase str = ''bson'' then Some (BSON_deserialize env)
                else Some (JSON_parse env))
       \<and> (collectionNameForFiles (replace_backslashes name) = Some ''.metadata'' \<longrightarrow>
            onFile env parser True name stream s =
              (case JSON_parse env stream of
                 None \<Rightarrow> (Inl DecodeFailure, s)
               | Some document \<Rightarrow>
                   (Inr None,
                    s\<lparr>metadata :=
                        metadata s @ [(after_last_slash (replace_backslashes name), document)]\<rparr>)))
       \<and> (\<forall>collectionName.
            collectionNameForFiles (replace_backslashes name) = Some collectionName
              \<and> collectionName \<noteq> ''.metadata'' \<longrightarrow>
            onFile env parser supportMetadata name stream s =
              (case parse parser stream of
                 Inl f \<Rightarrow> (Inl f, s)
               | Inr document \<Rightarrow> addDocument (env_db env) collectionName document s))"
proof (intro conjI impI allI)
  from assms show "parser =
           (case my_parser my of
              Parser_function f \<Rightarrow> f
            | Parser_string str \<Rightarrow>
                if toLowerCase str = ''bson'' then Some (BSON_deserialize env)
                else Some (JSON_parse env))"
    by (auto simp add: wrapper_parser_def bsonParser_def jsonParser_def
        split: parser_option.splits if_splits)
next
  assume "collectionNameForFiles (replace_backslashes name) = Some ''.metadata''"
  then show "onFile env parser True name stream s =
              (case JSON_parse env stream of
                 None \<Rightarrow> (Inl DecodeFailure, s)
               | Some document \<Rightarrow>
                   (Inr None,
                    s\<lparr>metadata :=
                        metadata s @ [(after_last_slash (replace_backslashes name), document)]\<rparr>))"
    by (rule onFile_metadata)
next
  fix collectionName
  assume "collectionNameForFiles (replace_backslashes name) = Some collectionName
              \<and> collectionName \<noteq> ''.metadata''"
  then show "onFile env parser supportMetadata name stream s =
              (case parse parser stream of
                 Inl f \<Rightarrow> (Inl f, s)
               | Inr document \<Rightarrow> addDocument (env_db env) collectionName document s)"
    by (simp add: onFile_document)
qed

theorem metadata_decoded_as_json_witness:
  "wrapper_parser example_env example_my = Inr (Some (BSON_deserialize example_env))
   \<and> collectionNameForFiles (replace_backslashes ''/dump/mydb/.metadata/users'') = Some ''.metadata''
   \<and> onFile example_env (Some (BSON_deserialize example_env)) True
        ''/dump/mydb/.metadata/users'' ''[1]'' initial
       = (Inr None, initial\<lparr>metadata := [(''users'', JsValue 3)]\<rparr>)
   \<and> collectionNameForFiles (replace_backslashes ''/dump/mydb/users/doc1.json'') = Some ''users''
   \<and> onFile example_env (Some (BSON_deserialize example_env)) True
        ''/dump/mydb/users/doc1.json'' ''[1]'' initial
       = (Inr None, initial\<lparr>dataToWrite := [(''users'', [JsValue 0])]\<rparr>)"
proof -
  have low: "toLowerCase ''BSON'' = ''bson''" by code_simp
  have p: "wrapper_parser example_env example_my = Inr (Some (BSON_deserialize example_env))"
    by (simp add: wrapper_parser_def example_my_def low bsonParser_def)
  have n1: "collectionNameForFiles (replace_backslashes ''/dump/mydb/.metadata/users'') = Some ''.metadata''"
    by (simp add: collectionNameForFiles_def replace_backslashes_def before_last_slash_def
        after_last_slash_def)
  have n2: "collectionNameForFiles (replace_backslashes ''/dump/mydb/users/doc1.json'') = Some ''users''"
    by (simp add: collectionNameForFiles_def replace_backslashes_def before_last_slash_def
        after_last_slash_def)
  have a: "after_last_slash (replace_backslashes ''/dump/mydb/.metadata/users'') = ''users''"
    by (simp add: replace_backslashes_def after_last_slash_def)
  have j: "JSON_parse example_env ''[1]'' = Some (JsValue 3)" by (simp add: example_env_def)
  have b: "parse (Some (BSON_deserialize example_env)) ''[1]'' = Inr (JsValue 0)"
    by (simp add: parse_def example_env_def)
  have ad: "addDocument (env_db example_env) ''users'' (JsValue 0) initial
      = (Inr None, initial\<lparr>dataToWrite := [(''users'', [JsValue 0])]\<rparr>)"
    by (simp add: addDocument_def lookup_array_def assign_def initial_def)
  from metadata_decoded_as_json[OF p, of "''/dump/mydb/.metadata/users''" "''[1]''" initial True] n1
  have r1: "onFile example_env (Some (BSON_deserialize example_env)) True
        ''/dump/mydb/.metadata/users'' ''[1]'' initial
       = (Inr None, initial\<lparr>metadata := [(''users'', JsValue 3)]\<rparr>)"
    by (simp add: j a initial_def)
  from metadata_decoded_as_json[OF p, of "''/dump/mydb/users/doc1.json''" "''[1]''" initial True] n2
  have r2: "onFile example_env (Some (BSON_deserialize example_env)) True
        ''/dump/mydb/users/doc1.json'' ''[1]'' initial
       = (Inr None, initial\<lparr>dataToWrite := [(''users'', [JsValue 0])]\<rparr>)"
    by (simp add: b ad)
  from p n1 n2 r1 r2 show ?thesis by simp
qed

end
